theory Spec2Isabelle
  imports Main "HOL-Library.AList"
begin

section \<open>JavaScript values\<close>

text \<open>
  The handlers exchange plain JSON-like objects with the store and with their callers.
  A value is one of JavaScript's \<open>undefined\<close>, \<open>null\<close>, a boolean, a number (the
  handlers modelled here only ever hold integers in this position), a string, an array
  or an object; an object is the list of its own properties in insertion order.
  Strings are lists of 8-bit characters. The row identifiers of the store (UUIDs, which
  JavaScript holds as strings) have a constructor of their own: \<open>VId n\<close> is the
  \<open>n\<close>-th identifier the store has drawn.
\<close>

datatype val =
    VUndef
  | VNull
  | VBool bool
  | VNum int
  | VStr string
  | VId nat
  | VArr "val list"
  | VObj "(string \<times> val) list"

type_synonym row = "(string \<times> val) list"

text \<open>Property access \<open>o.k\<close>: a missing property reads as \<open>undefined\<close>.\<close>

definition get_prop :: "row \<Rightarrow> string \<Rightarrow> val" where
  "get_prop r k = (case map_of r k of Some v \<Rightarrow> v | None \<Rightarrow> VUndef)"

text \<open>A column of a row returned by the store: a column never written is SQL \<open>NULL\<close>.\<close>

definition col :: "row \<Rightarrow> string \<Rightarrow> val" where
  "col r k = (case map_of r k of Some v \<Rightarrow> v | None \<Rightarrow> VNull)"

text \<open>Truthiness, as tested by \<open>if (x)\<close>, \<open>!x\<close>, \<open>x || y\<close> and \<open>x ? a : b\<close>.\<close>

fun truthy :: "val \<Rightarrow> bool" where
  "truthy VUndef = False"
| "truthy VNull = False"
| "truthy (VBool b) = b"
| "truthy (VNum n) = (n \<noteq> 0)"
| "truthy (VStr s) = (s \<noteq> [])"
| "truthy (VId _) = True"
| "truthy (VArr _) = True"
| "truthy (VObj _) = True"

definition js_or :: "val \<Rightarrow> val \<Rightarrow> val" where
  "js_or a b = (if truthy a then a else b)"

text \<open>Decimal rendering of numbers, as in template literals.\<close>

definition digit :: "nat \<Rightarrow> char" where
  "digit d = ''0123456789'' ! (d mod 10)"

fun show_nat :: "nat \<Rightarrow> string" where
  "show_nat n = (if n < 10 then [digit n] else show_nat (n div 10) @ [digit n])"

definition show_int :: "int \<Rightarrow> string" where
  "show_int i = (if i < 0 then CHR ''-'' # show_nat (nat (- i)) else show_nat (nat i))"

fun join :: "string \<Rightarrow> string list \<Rightarrow> string" where
  "join sep [] = []"
| "join sep [x] = x"
| "join sep (x # y # ys) = x @ sep @ join sep (y # ys)"

text \<open>
  String conversion, as performed by a template literal \<open>`${x}`\<close> and by a computed
  property key \<open>o[x]\<close>.
\<close>

fun to_string :: "val \<Rightarrow> string" where
  "to_string VUndef = ''undefined''"
| "to_string VNull = ''null''"
| "to_string (VBool b) = (if b then ''true'' else ''false'')"
| "to_string (VNum n) = show_int n"
| "to_string (VStr s) = s"
| "to_string (VId n) = ''uuid-'' @ show_nat n"
| "to_string (VArr vs) =
     join '','' (map (\<lambda>v. if v = VUndef \<or> v = VNull then [] else to_string v) vs)"
| "to_string (VObj _) = ''[object Object]''"

text \<open>Assignment \<open>o[k] = v\<close> and the spread \<open>{...a, ...b}\<close> on objects.\<close>

definition set_prop :: "string \<Rightarrow> val \<Rightarrow> row \<Rightarrow> row" where
  "set_prop k v r = AList.update k v r"

definition spread :: "row \<Rightarrow> row \<Rightarrow> row" where
  "spread a b = fold (\<lambda>(k, v). set_prop k v) b a"

text \<open>The own properties of a value that is spread into an object literal.\<close>

fun own_props :: "val \<Rightarrow> row" where
  "own_props (VObj r) = r"
| "own_props (VArr vs) = zip (map show_nat [0 ..< length vs]) vs"
| "own_props (VStr s) = zip (map show_nat [0 ..< length s]) (map (\<lambda>c. VStr [c]) s)"
| "own_props _ = []"

text \<open>
  The \<open>TypeError\<close> raised by a method call \<open>x.m(...)\<close> on a value that has no such
  method, with the message of the V8 engine; \<open>x\<close> is the text of the expression.
\<close>

definition no_method :: "string \<Rightarrow> val \<Rightarrow> string \<Rightarrow> string" where
  "no_method x v m =
     (if v = VUndef \<or> v = VNull
      then ''Cannot read properties of '' @ to_string v @ '' (reading '' @ [CHR 0x27] @ m
           @ [CHR 0x27] @ '')''
      else x @ ''.'' @ m @ '' is not a function'')"

text \<open>
  What \<open>JSON\<close> serialisation keeps of an object sent to the store: properties whose
  value is \<open>undefined\<close> are dropped.
\<close>

definition defined_props :: "row \<Rightarrow> row" where
  "defined_props r = filter (\<lambda>(k, v). v \<noteq> VUndef) r"

subsection \<open>Strings\<close>

definition lower_char :: "char \<Rightarrow> char" where
  "lower_char c =
     (case map_of (zip ''ABCDEFGHIJKLMNOPQRSTUVWXYZ'' ''abcdefghijklmnopqrstuvwxyz'') c of
        Some d \<Rightarrow> d
      | None \<Rightarrow> c)"

text \<open>
  \<open>String.prototype.toLowerCase\<close>, on the ASCII letters. Whatever it makes of another
  8-bit character, the result is outside \<open>a-z0-9\<close>, so neither the slug of a name nor
  the test of a file extension depends on it.
\<close>

definition toLowerCase :: "string \<Rightarrow> string" where
  "toLowerCase s = map lower_char s"

text \<open>The character class \<open>[a-z0-9]\<close>.\<close>

definition alnum :: "char \<Rightarrow> bool" where
  "alnum c = (c \<in> set ''abcdefghijklmnopqrstuvwxyz0123456789'')"

text \<open>\<open>s.replace(/[^a-z0-9]+/g, '-')\<close>: every maximal run outside the class becomes one hyphen.\<close>

function replace_runs :: "string \<Rightarrow> string" where
  "replace_runs [] = []"
| "replace_runs (c # cs) =
     (if alnum c then c # replace_runs cs
      else CHR ''-'' # replace_runs (dropWhile (\<lambda>d. \<not> alnum d) cs))"
  by pat_completeness auto
termination
  by (relation "measure length") (auto simp: length_dropWhile_le le_imp_less_Suc)

text \<open>
  \<open>s.replace(/^-|-$/g, '')\<close>: a hyphen at the very start is removed, then a hyphen at
  the very end of what is left.
\<close>

definition strip_edges :: "string \<Rightarrow> string" where
  "strip_edges s =
     (let s1 = (case s of [] \<Rightarrow> [] | c # cs \<Rightarrow> if c = CHR ''-'' then cs else s)
      in if s1 \<noteq> [] \<and> last s1 = CHR ''-'' then butlast s1 else s1)"

definition derive_slug :: "string \<Rightarrow> string" where
  "derive_slug name = strip_edges (replace_runs (toLowerCase name))"

text \<open>
  The derivation in the words of the specification: split the lowercased name at its
  non-alphanumeric characters into the maximal alphanumeric words, and join the words
  with single hyphens.
\<close>

fun words_acc :: "string \<Rightarrow> string \<Rightarrow> string list" where
  "words_acc w [] = (if w = [] then [] else [w])"
| "words_acc w (c # cs) =
     (if alnum c then words_acc (w @ [c]) cs
      else (if w = [] then [] else [w]) @ words_acc [] cs)"

definition alnum_words :: "string \<Rightarrow> string list" where
  "alnum_words s = words_acc [] s"

definition spec_slug :: "string \<Rightarrow> string" where
  "spec_slug name = join ''-'' (alnum_words (toLowerCase name))"

section \<open>The store\<close>

text \<open>
  The relational store is reached through the query builder of its client library. The
  model keeps every table as the list of its rows in insertion order, a counter from
  which the store draws fresh row identifiers, and the objects of the storage bucket
  \<open>documents\<close> by path.
\<close>

record store =
  tables :: "string \<Rightarrow> row list"
  next_id :: nat
  bucket :: row
  requests :: "string list"

definition empty_store :: store where
  "empty_store = \<lparr>tables = (\<lambda>t. []), next_id = 0, bucket = [], requests = []\<rparr>"

text \<open>
  The last field is not part of the store: it is the trace of the URLs to which the
  handlers have issued an HTTP \<open>GET\<close>, oldest first, kept beside the tables so that
  every handler has the same shape.

  A remote server, as seen by \<open>fetch\<close>: it answers after some milliseconds with a
  status code and a body, or the request fails with a message (no route, refused
  connection, malformed URL).
\<close>

datatype server = Responds nat nat string | Fails string

text \<open>
  What the outside world contributes to one handler call: the successive readings of the
  JavaScript clock (\<open>new Date().toISOString()\<close>), the store's own \<open>NOW()\<close>, and, for
  each request to the store whose \<open>error\<close> the handler inspects (numbered in program
  order), whether the store refuses it and with which message. A refused request
  changes nothing. It also fixes the public URL the storage client computes for a path
  of the bucket, and how each URL that is fetched behaves.

  Of the requests whose \<open>error\<close> the handler does not read, two kinds can fail in the
  model: the lookup of the slug in \<open>add_deployment\<close>, and the update that
  \<open>check_deployment_health\<close> sends for each component it has probed. For these,
  numbered apart from the others in the order in which the call sends them, \<open>failed\<close>
  says whether the store fails them: then nothing changes, \<open>data\<close> is \<open>null\<close>, and the
  handler goes on as the code does.
\<close>

record env =
  clock :: "nat \<Rightarrow> string"
  db_clock :: string
  refused :: "nat \<Rightarrow> string option"
  failed :: "nat \<Rightarrow> bool"
  public_url :: "string \<Rightarrow> string"
  net :: "string \<Rightarrow> server"

type_synonym outcome = "(string + val) \<times> store"

text \<open>Column defaults of \<open>schema.sql\<close>; for the tables it does not declare none is known.\<close>

definition defaults :: "string \<Rightarrow> string \<Rightarrow> row" where
  "defaults t now =
     (if t = ''companies'' then
        [(''status'', VStr ''discovery''), (''created_at'', VStr now), (''updated_at'', VStr now)]
      else if t = ''contacts'' then
        [(''is_primary'', VBool False), (''created_at'', VStr now)]
      else if t = ''milestones'' then
        [(''status'', VStr ''pending''), (''order_index'', VNum 0),
         (''created_at'', VStr now), (''updated_at'', VStr now)]
      else if t = ''documents'' then [(''uploaded_at'', VStr now)]
      else if t = ''activity'' then
        [(''type'', VStr ''note''), (''author'', VStr ''Chris''), (''created_at'', VStr now)]
      else if t = ''requirements'' then
        [(''status'', VStr ''needed''), (''updated_at'', VStr now)]
      else [])"

text \<open>\<open>.eq(column, value)\<close>\<close>

definition eq_filter :: "string \<Rightarrow> val \<Rightarrow> row list \<Rightarrow> row list" where
  "eq_filter c v rs = filter (\<lambda>r. col r c = v) rs"

text \<open>\<open>.is(column, null)\<close>\<close>

definition is_null_filter :: "string \<Rightarrow> row list \<Rightarrow> row list" where
  "is_null_filter c rs = filter (\<lambda>r. col r c = VNull) rs"

text \<open>\<open>.select('a, b')\<close>: the named columns of a row.\<close>

definition select_cols :: "string list \<Rightarrow> row \<Rightarrow> row" where
  "select_cols cs r = map (\<lambda>c. (c, col r c)) cs"

text \<open>
  \<open>.single()\<close>: the row when exactly one row qualifies; otherwise \<open>data\<close> is \<open>null\<close>
  and \<open>error\<close> carries the store's message for it.
\<close>

definition single :: "row list \<Rightarrow> val" where
  "single rs = (case rs of [r] \<Rightarrow> VObj r | _ \<Rightarrow> VNull)"

definition no_single_row :: string where
  "no_single_row = ''JSON object requested, multiple (or no) rows returned''"

text \<open>\<open>data[0]\<close>\<close>

definition first :: "row list \<Rightarrow> val" where
  "first rs = (case rs of [] \<Rightarrow> VUndef | r # _ \<Rightarrow> VObj r)"

text \<open>
  \<open>.order(column, {ascending})\<close>: a stable sort on the column, numbers by value and
  strings character by character; \<open>NULL\<close> sorts last ascending and first descending.
\<close>

fun key_less :: "val \<Rightarrow> val \<Rightarrow> bool" where
  "key_less (VNum a) (VNum b) = (a < b)"
| "key_less (VStr a) (VStr b) = lexordp (\<lambda>x y. (of_char x :: nat) < of_char y) a b"
| "key_less VNull _ = False"
| "key_less _ VNull = True"
| "key_less _ _ = False"

fun insert_by :: "('a \<Rightarrow> 'a \<Rightarrow> bool) \<Rightarrow> 'a \<Rightarrow> 'a list \<Rightarrow> 'a list" where
  "insert_by lt x [] = [x]"
| "insert_by lt x (y # ys) = (if lt y x then y # insert_by lt x ys else x # y # ys)"

definition order_by :: "string \<Rightarrow> bool \<Rightarrow> row list \<Rightarrow> row list" where
  "order_by c ascending rs =
     foldr (insert_by (\<lambda>a b. if ascending then key_less (col a c) (col b c)
                              else key_less (col b c) (col a c))) rs []"

text \<open>
  \<open>.insert(rows).select()\<close>: each row gets a fresh identifier and the column defaults;
  properties that are \<open>undefined\<close> are not sent.
\<close>

definition new_row :: "string \<Rightarrow> string \<Rightarrow> nat \<Rightarrow> row \<Rightarrow> row" where
  "new_row t now i r = spread ((''id'', VId i) # defaults t now) (defined_props r)"

definition insert_rows :: "string \<Rightarrow> string \<Rightarrow> row list \<Rightarrow> store \<Rightarrow> row list \<times> store" where
  "insert_rows t now rs s =
     (let new = map (\<lambda>(i, r). new_row t now i r) (zip [next_id s ..< next_id s + length rs] rs)
      in (new, s\<lparr>tables := (tables s)(t := tables s t @ new),
                 next_id := next_id s + length rs\<rparr>))"

text \<open>\<open>.update(u)\<close> on the rows that qualify, with \<open>.select()\<close> returning them as updated.\<close>

definition update_rows :: "string \<Rightarrow> (row \<Rightarrow> bool) \<Rightarrow> row \<Rightarrow> store \<Rightarrow> row list \<times> store" where
  "update_rows t p u s =
     (map (\<lambda>r. spread r (defined_props u)) (filter p (tables s t)),
      s\<lparr>tables := (tables s)
           (t := map (\<lambda>r. if p r then spread r (defined_props u) else r) (tables s t))\<rparr>)"

text \<open>
  Foreign keys declared \<open>ON DELETE CASCADE\<close>, as (child table, column, parent table).
  The first five are those of \<open>schema.sql\<close>.

  Modelled from the spec: the declaration of the tables \<open>deployments\<close> and
  \<open>deployment_components\<close> is not among the sources; the last entry follows the
  sentence "deleting a Deployment cascades to its components".
\<close>

definition cascades :: "(string \<times> string \<times> string) list" where
  "cascades =
     [(''contacts'', ''company_id'', ''companies''),
      (''milestones'', ''company_id'', ''companies''),
      (''documents'', ''company_id'', ''companies''),
      (''activity'', ''company_id'', ''companies''),
      (''requirements'', ''company_id'', ''companies''),
      (''deployment_components'', ''deployment_id'', ''deployments'')]"

text \<open>\<open>.delete()\<close> on the rows that qualify, and on the rows that reference them.\<close>

definition delete_rows :: "string \<Rightarrow> (row \<Rightarrow> bool) \<Rightarrow> store \<Rightarrow> store" where
  "delete_rows t p s =
     (let gone = map (\<lambda>r. col r ''id'') (filter p (tables s t))
      in s\<lparr>tables := (\<lambda>t'.
            if t' = t then filter (\<lambda>r. \<not> p r) (tables s t)
            else case map_of (map (\<lambda>(ch, c, pa). ((ch, pa), c)) cascades) (t', t) of
                   Some c \<Rightarrow> filter (\<lambda>r. col r c \<notin> set gone) (tables s t')
                 | None \<Rightarrow> tables s t')\<rparr>)"

text \<open>The parent company embedded by \<open>.select('*, companies(name, slug)')\<close>.\<close>

definition embed_company :: "store \<Rightarrow> row \<Rightarrow> row" where
  "embed_company s r =
     r @ [(''companies'',
           case eq_filter ''id'' (col r ''company_id'') (tables s ''companies'') of
             c # _ \<Rightarrow> VObj (select_cols [''name'', ''slug''] c)
           | [] \<Rightarrow> VNull)]"

text \<open>
  The lookup every slug-addressed handler starts with:
  \<open>supabase.from('companies').select('id').eq('slug', slug).single()\<close>, of which only
  \<open>data\<close> is read. A lookup that the store fails leaves \<open>data\<close> \<open>null\<close> as well, which
  the handlers do not tell from a slug that no company has; the model takes this lookup
  to be answered.
\<close>

definition find_company :: "store \<Rightarrow> val \<Rightarrow> val" where
  "find_company s slug =
     single (map (select_cols [''id'']) (eq_filter ''slug'' slug (tables s ''companies'')))"

definition company_not_found :: "val \<Rightarrow> string" where
  "company_not_found slug = ''Company not found: '' @ to_string slug"

text \<open>A default parameter value applies when the argument is \<open>undefined\<close>.\<close>

definition dflt :: "val \<Rightarrow> val \<Rightarrow> val" where
  "dflt v d = (if v = VUndef then d else v)"

section \<open>Company handlers\<close>

definition update_company_status :: "env \<Rightarrow> val \<Rightarrow> val \<Rightarrow> store \<Rightarrow> outcome" where
  "update_company_status e slug status s =
     (case refused e 0 of
        Some m \<Rightarrow> (Inl m, s)
      | None \<Rightarrow>
          (let (data, s') = update_rows ''companies'' (\<lambda>r. col r ''slug'' = slug)
                              [(''status'', status), (''updated_at'', VStr (clock e 0))] s
           in (Inr (VObj [(''success'', VBool True), (''company'', first data)]), s')))"

definition list_milestones :: "env \<Rightarrow> val \<Rightarrow> store \<Rightarrow> outcome" where
  "list_milestones e slug s =
     (case find_company s slug of
        VObj company \<Rightarrow>
          (case refused e 0 of
             Some m \<Rightarrow> (Inl m, s)
           | None \<Rightarrow>
               (Inr (VArr (map VObj (order_by ''order_index'' True
                   (eq_filter ''company_id'' (get_prop company ''id'') (tables s ''milestones''))))),
                s))
      | _ \<Rightarrow> (Inl (company_not_found slug), s))"

text \<open>
  \<open>existing[0].order_index + 1\<close>: the column is an \<open>INT\<close>, and \<open>null + 1\<close> is \<open>1\<close>.
\<close>

definition add_one :: "val \<Rightarrow> val" where
  "add_one v = (case v of VNum n \<Rightarrow> VNum (n + 1) | _ \<Rightarrow> VNum 1)"

definition add_milestone :: "env \<Rightarrow> val \<Rightarrow> val \<Rightarrow> val \<Rightarrow> store \<Rightarrow> outcome" where
  "add_milestone e slug title due_date s =
     (case find_company s slug of
        VObj company \<Rightarrow>
          (let existing = take 1 (order_by ''order_index'' False
                 (eq_filter ''company_id'' (get_prop company ''id'') (tables s ''milestones'')));
               order_index = (case existing of [] \<Rightarrow> VNum 0
                              | r # _ \<Rightarrow> add_one (col r ''order_index''))
           in case refused e 0 of
                Some m \<Rightarrow> (Inl m, s)
              | None \<Rightarrow>
                  (let (data, s') = insert_rows ''milestones'' (db_clock e)
                         [[(''company_id'', get_prop company ''id''), (''title'', title),
                           (''due_date'', due_date), (''order_index'', order_index)]] s
                   in (Inr (VObj [(''success'', VBool True), (''milestone'', first data)]), s')))
      | _ \<Rightarrow> (Inl (company_not_found slug), s))"

definition add_note :: "env \<Rightarrow> val \<Rightarrow> val \<Rightarrow> val \<Rightarrow> store \<Rightarrow> outcome" where
  "add_note e slug content type s =
     (case find_company s slug of
        VObj company \<Rightarrow>
          (case refused e 0 of
             Some m \<Rightarrow> (Inl m, s)
           | None \<Rightarrow>
               (let (data, s') = insert_rows ''activity'' (db_clock e)
                      [[(''company_id'', get_prop company ''id''), (''content'', content),
                        (''type'', dflt type (VStr ''note''))]] s
                in (Inr (VObj [(''success'', VBool True), (''activity'', first data)]), s')))
      | _ \<Rightarrow> (Inl (company_not_found slug), s))"

text \<open>
  \<open>.limit(n)\<close>; the tool's schema declares the argument a number.
\<close>

definition limit_rows :: "val \<Rightarrow> row list \<Rightarrow> row list" where
  "limit_rows n rs = (case n of VNum k \<Rightarrow> take (nat k) rs | _ \<Rightarrow> rs)"

definition get_recent_activity :: "env \<Rightarrow> val \<Rightarrow> val \<Rightarrow> store \<Rightarrow> outcome" where
  "get_recent_activity e slug limit s =
     (let rows =
            (if truthy slug then
               (case find_company s slug of
                  VObj company \<Rightarrow>
                    eq_filter ''company_id'' (get_prop company ''id'') (tables s ''activity'')
                | _ \<Rightarrow> tables s ''activity'')
             else tables s ''activity'')
      in case refused e 0 of
           Some m \<Rightarrow> (Inl m, s)
         | None \<Rightarrow>
             (Inr (VArr (map (\<lambda>r. VObj (embed_company s r))
                (limit_rows (dflt limit (VNum 20)) (order_by ''created_at'' False rows)))), s))"

text \<open>
  The store's \<open>ILIKE\<close> is taken as the parameter \<open>ilike\<close> (pattern, then text); the
  handler builds the pattern \<open>%item%\<close>.
\<close>

definition update_requirement ::
  "(string \<Rightarrow> val \<Rightarrow> bool) \<Rightarrow> env \<Rightarrow> val \<Rightarrow> val \<Rightarrow> val \<Rightarrow> store \<Rightarrow> outcome" where
  "update_requirement ilike e slug item status s =
     (case find_company s slug of
        VObj company \<Rightarrow>
          (case refused e 0 of
             Some m \<Rightarrow> (Inl m, s)
           | None \<Rightarrow>
               (let (data, s') = update_rows ''requirements''
                      (\<lambda>r. col r ''company_id'' = get_prop company ''id'' \<and>
                           ilike (''%'' @ to_string item @ ''%'') (col r ''item''))
                      [(''status'', status), (''updated_at'', VStr (clock e 0))] s
                in (Inr (VObj [(''success'', VBool True), (''requirement'', first data)]), s')))
      | _ \<Rightarrow> (Inl (company_not_found slug), s))"

definition add_requirement :: "env \<Rightarrow> val \<Rightarrow> val \<Rightarrow> val \<Rightarrow> store \<Rightarrow> outcome" where
  "add_requirement e slug item status s =
     (case find_company s slug of
        VObj company \<Rightarrow>
          (case refused e 0 of
             Some m \<Rightarrow> (Inl m, s)
           | None \<Rightarrow>
               (let (data, s') = insert_rows ''requirements'' (db_clock e)
                      [[(''company_id'', get_prop company ''id''), (''item'', item),
                        (''status'', dflt status (VStr ''needed''))]] s
                in (Inr (VObj [(''success'', VBool True), (''requirement'', first data)]), s')))
      | _ \<Rightarrow> (Inl (company_not_found slug), s))"

text \<open>
  The first and the third variant of the server order the documents by \<open>uploaded_at\<close>,
  the second by \<open>created_at\<close>: the column is the first parameter.
\<close>

definition list_documents :: "string \<Rightarrow> env \<Rightarrow> val \<Rightarrow> store \<Rightarrow> outcome" where
  "list_documents order_column e slug s =
     (case find_company s slug of
        VObj company \<Rightarrow>
          (case refused e 0 of
             Some m \<Rightarrow> (Inl m, s)
           | None \<Rightarrow>
               (Inr (VArr (map VObj (order_by order_column False
                   (eq_filter ''company_id'' (get_prop company ''id'') (tables s ''documents''))))),
                s))
      | _ \<Rightarrow> (Inl (company_not_found slug), s))"

definition add_document :: "env \<Rightarrow> val \<Rightarrow> val \<Rightarrow> val \<Rightarrow> val \<Rightarrow> val \<Rightarrow> store \<Rightarrow> outcome" where
  "add_document e slug name type url notes s =
     (case find_company s slug of
        VObj company \<Rightarrow>
          (case refused e 0 of
             Some m \<Rightarrow> (Inl m, s)
           | None \<Rightarrow>
               (let (data, s') = insert_rows ''documents'' (db_clock e)
                      [[(''company_id'', get_prop company ''id''), (''name'', name),
                        (''type'', type), (''url'', url), (''notes'', notes)]] s
                in (Inr (VObj [(''success'', VBool True), (''document'', first data)]), s')))
      | _ \<Rightarrow> (Inl (company_not_found slug), s))"

definition add_contact ::
  "env \<Rightarrow> val \<Rightarrow> val \<Rightarrow> val \<Rightarrow> val \<Rightarrow> val \<Rightarrow> store \<Rightarrow> outcome" where
  "add_contact e slug name role email phone s =
     (case find_company s slug of
        VObj company \<Rightarrow>
          (case refused e 0 of
             Some m \<Rightarrow> (Inl m, s)
           | None \<Rightarrow>
               (let (data, s') = insert_rows ''contacts'' (db_clock e)
                      [[(''company_id'', get_prop company ''id''), (''name'', name),
                        (''role'', role), (''email'', email), (''phone'', phone)]] s
                in (Inr (VObj [(''success'', VBool True), (''contact'', first data)]), s')))
      | _ \<Rightarrow> (Inl (company_not_found slug), s))"

definition list_contacts :: "env \<Rightarrow> val \<Rightarrow> store \<Rightarrow> outcome" where
  "list_contacts e slug s =
     (case find_company s slug of
        VObj company \<Rightarrow>
          (case refused e 0 of
             Some m \<Rightarrow> (Inl m, s)
           | None \<Rightarrow>
               (Inr (VArr (map VObj
                   (eq_filter ''company_id'' (get_prop company ''id'') (tables s ''contacts'')))),
                s))
      | _ \<Rightarrow> (Inl (company_not_found slug), s))"

section \<open>Portfolio summary\<close>

text \<open>
  JavaScript numbers are IEEE 754 binary64 values. A positive one is written here as a
  pair \<open>(m, e)\<close> standing for \<open>m * 2 ^ e\<close>, with a significand \<open>m\<close> of 53 bits. Every
  arithmetic operation returns the representable number nearest to the exact result,
  a tie going to the even significand. Counts of rows are small integers: they are
  represented exactly, and so far from the ends of the exponent range that neither
  overflow nor subnormal numbers arise.
\<close>

fun bits :: "nat \<Rightarrow> nat" where
  "bits n = (if n = 0 then 0 else Suc (bits (n div 2)))"

text \<open>The binary64 number nearest to the quotient \<open>n / d\<close> of two positive integers.\<close>

definition nearest_double :: "nat \<Rightarrow> nat \<Rightarrow> int \<times> int" where
  "nearest_double n d =
     (if n = 0 then (0, 0) else
      let k = 53 + int (bits d) - int (bits n);
          N = (if 0 \<le> k then int n * 2 ^ nat k else int n);
          D = (if 0 \<le> k then int d else int d * 2 ^ nat (- k));
          k' = (if 2 ^ 53 * D \<le> N then k - 1 else k);
          D' = (if 2 ^ 53 * D \<le> N then 2 * D else D);
          q = N div D';
          r = N mod D';
          m = (if 2 * r < D' then q
               else if D' < 2 * r then q + 1
               else if even q then q else q + 1)
      in (m, - k'))"

text \<open>\<open>a / b\<close> on two counts, \<open>x * 100\<close>, and \<open>Math.round\<close> (the nearest integer, a tie going up).\<close>

definition js_divide :: "nat \<Rightarrow> nat \<Rightarrow> int \<times> int" where
  "js_divide a b = nearest_double a b"

definition js_times_100 :: "int \<times> int \<Rightarrow> int \<times> int" where
  "js_times_100 x =
     (case x of (m, e) \<Rightarrow>
        if 0 \<le> e then nearest_double (nat (100 * m * 2 ^ nat e)) 1
        else nearest_double (nat (100 * m)) (2 ^ nat (- e)))"

definition Math_round :: "int \<times> int \<Rightarrow> int" where
  "Math_round x =
     (case x of (m, e) \<Rightarrow>
        if 0 \<le> e then m * 2 ^ nat e
        else (2 * m + 2 ^ nat (- e)) div 2 ^ (nat (- e) + 1))"

text \<open>\<open>total ? Math.round((done / total) * 100) : 0\<close>\<close>

definition progress :: "nat \<Rightarrow> nat \<Rightarrow> int" where
  "progress n_done n_total =
     (if n_total \<noteq> 0 then Math_round (js_times_100 (js_divide n_done n_total)) else 0)"

text \<open>
  The rounded percentage as the specification writes it, \<open>round(100 * done / total)\<close>,
  on exact numbers: \<open>\<lfloor>100 * done / total + 1/2\<rfloor>\<close>.
\<close>

definition spec_progress :: "nat \<Rightarrow> nat \<Rightarrow> int" where
  "spec_progress n_done n_total = (200 * int n_done + int n_total) div (2 * int n_total)"

text \<open>The rows embedded by \<open>milestones(status)\<close> in the select of the summary.\<close>

definition milestones_of :: "store \<Rightarrow> row \<Rightarrow> row list" where
  "milestones_of s c =
     map (select_cols [''status''])
       (eq_filter ''company_id'' (col c ''id'') (tables s ''milestones''))"

definition done_count :: "row list \<Rightarrow> nat" where
  "done_count ms = length (filter (\<lambda>m. get_prop m ''status'' = VStr ''done'') ms)"

definition summary_of :: "store \<Rightarrow> row \<Rightarrow> val" where
  "summary_of s c =
     (let n_total = length (milestones_of s c);
          n_done = done_count (milestones_of s c)
      in VObj [(''name'', col c ''name''),
               (''slug'', col c ''slug''),
               (''status'', col c ''status''),
               (''progress'', VNum (progress n_done n_total)),
               (''milestones'', VStr (show_nat n_done @ ''/'' @ show_nat n_total))])"

definition get_portfolio_summary :: "env \<Rightarrow> store \<Rightarrow> outcome" where
  "get_portfolio_summary e s =
     (case refused e 0 of
        Some m \<Rightarrow> (Inl m, s)
      | None \<Rightarrow> (Inr (VArr (map (summary_of s) (tables s ''companies''))), s))"

section \<open>Status transitions\<close>

text \<open>The object \<open>update\<close> that \<open>update_milestone\<close> builds before it calls the store.\<close>

definition milestone_update :: "env \<Rightarrow> val \<Rightarrow> val \<Rightarrow> row" where
  "milestone_update e status notes =
     [(''status'', status), (''updated_at'', VStr (clock e 0))]
     @ (if status = VStr ''done'' then [(''completed_at'', VStr (clock e 1))] else [])
     @ (if truthy notes then [(''notes'', notes)] else [])"

definition update_milestone :: "env \<Rightarrow> val \<Rightarrow> val \<Rightarrow> val \<Rightarrow> store \<Rightarrow> outcome" where
  "update_milestone e milestone_id status notes s =
     (let update = milestone_update e status notes
      in case refused e 0 of
           Some m \<Rightarrow> (Inl m, s)
         | None \<Rightarrow>
             (let (data, s') = update_rows ''milestones'' (\<lambda>r. col r ''id'' = milestone_id) update s
              in (Inr (VObj [(''success'', VBool True), (''milestone'', first data)]), s')))"

definition add_dev_task ::
  "env \<Rightarrow> val \<Rightarrow> val \<Rightarrow> val \<Rightarrow> val \<Rightarrow> val \<Rightarrow> val \<Rightarrow> store \<Rightarrow> outcome" where
  "add_dev_task e title description assigned_to priority steps due_date s =
     (case refused e 0 of
        Some m \<Rightarrow> (Inl m, s)
      | None \<Rightarrow>
          (let (data, s') = insert_rows ''dev_tasks'' (db_clock e)
                 [[(''title'', title), (''description'', description),
                   (''assigned_to'', assigned_to),
                   (''priority'', js_or priority (VStr ''medium'')),
                   (''steps'', js_or steps (VArr [])),
                   (''due_date'', due_date)]] s
           in (Inr (VObj [(''success'', VBool True), (''task'', single data)]), s')))"

text \<open>
  \<open>.update(updates).eq('id', task_id).select().single()\<close>: the update is carried out, and
  the answer is an error unless exactly one row was updated.
\<close>

text \<open>The object \<open>updates\<close> that \<open>update_dev_task\<close> builds.\<close>

definition dev_task_updates :: "env \<Rightarrow> val \<Rightarrow> val \<Rightarrow> val \<Rightarrow> row" where
  "dev_task_updates e status assigned_to priority =
     [(''updated_at'', VStr (clock e 0))]
     @ (if truthy status then
          [(''status'', status)]
          @ (if status = VStr ''done'' then [(''completed_at'', VStr (clock e 1))] else [])
        else [])
     @ (if truthy assigned_to then [(''assigned_to'', assigned_to)] else [])
     @ (if truthy priority then [(''priority'', priority)] else [])"

definition update_dev_task :: "env \<Rightarrow> val \<Rightarrow> val \<Rightarrow> val \<Rightarrow> val \<Rightarrow> store \<Rightarrow> outcome" where
  "update_dev_task e task_id status assigned_to priority s =
     (let updates = dev_task_updates e status assigned_to priority
      in case refused e 0 of
           Some m \<Rightarrow> (Inl m, s)
         | None \<Rightarrow>
             (let (data, s') = update_rows ''dev_tasks'' (\<lambda>r. col r ''id'' = task_id) updates s
              in case data of
                   [r] \<Rightarrow> (Inr (VObj [(''success'', VBool True), (''task'', VObj r)]), s')
                 | _ \<Rightarrow> (Inl no_single_row, s')))"

section \<open>Documents\<close>

text \<open>\<open>filename.split('.').pop()\<close>: what follows the last dot, or the whole name.\<close>

definition last_segment :: "string \<Rightarrow> string" where
  "last_segment f = rev (takeWhile (\<lambda>c. c \<noteq> CHR ''.'') (rev f))"

text \<open>
  \<open>Buffer.from(x, 'base64')\<close> accepts a string, an array or an object, and raises a
  \<open>TypeError\<close> on anything else.
\<close>

definition buffer_error :: "val \<Rightarrow> string option" where
  "buffer_error v =
     (case v of
        VStr _ \<Rightarrow> None
      | VArr _ \<Rightarrow> None
      | VObj _ \<Rightarrow> None
      | _ \<Rightarrow> Some (''The first argument must be of type string or an instance of Buffer, ''
                   @ ''ArrayBuffer, or Array or an Array-like Object.''))"

definition upload_document ::
  "env \<Rightarrow> val \<Rightarrow> val \<Rightarrow> val \<Rightarrow> val \<Rightarrow> val \<Rightarrow> val \<Rightarrow> store \<Rightarrow> outcome" where
  "upload_document e slug filename content_base64 content_type category description s =
     (let resolved =
            (if slug \<noteq> VStr ''platform'' \<and> slug \<noteq> VStr ''dev'' then
               (case find_company s slug of
                  VObj company \<Rightarrow> Inr (get_prop company ''id'')
                | _ \<Rightarrow> Inl (company_not_found slug))
             else Inr VNull)
      in case resolved of
           Inl m \<Rightarrow> (Inl m, s)
         | Inr company_id \<Rightarrow>
             (case buffer_error content_base64 of
                Some m \<Rightarrow> (Inl m, s)
              | None \<Rightarrow>
                  (let bucket_path = to_string slug @ ''/'' @ to_string filename
                   in case refused e 0 of
                        Some m \<Rightarrow> (Inl m, s)
                      | None \<Rightarrow>
                          (let s1 = s\<lparr>bucket := set_prop bucket_path
                                      (VObj [(''body'', content_base64),
                                             (''contentType'', content_type)]) (bucket s)\<rparr>;
                               url = VStr (public_url e bucket_path)
                           in case filename of
                                VStr f \<Rightarrow>
                                  (case refused e 1 of
                                     Some m \<Rightarrow> (Inl m, s1)
                                   | None \<Rightarrow>
                                       (let (data, s2) = insert_rows ''documents'' (db_clock e)
                                              [[(''company_id'', company_id),
                                                (''name'', filename),
                                                (''type'', js_or category (VStr ''general'')),
                                                (''url'', url),
                                                (''file_url'', url),
                                                (''bucket_path'', VStr bucket_path),
                                                (''file_type'', VStr (toLowerCase (last_segment f))),
                                                (''category'', js_or category (VStr ''general'')),
                                                (''notes'', description)]] s1
                                        in (Inr (VObj [(''success'', VBool True),
                                                       (''document'', single data),
                                                       (''url'', url)]), s2)))
                              | _ \<Rightarrow> (Inl (no_method ''filename'' filename ''split''), s1)))))"

definition textFormats :: "val list" where
  "textFormats = map VStr [''md'', ''txt'', ''json'', ''csv'', ''html'', ''xml'', ''js'', ''ts'',
                            ''py'', ''sql'']"

text \<open>\<open>response.ok\<close>\<close>

definition ok :: "nat \<Rightarrow> bool" where
  "ok code = (200 \<le> code \<and> code \<le> 299)"

definition truncation_marker :: string where
  "truncation_marker = [CHR 0x0A, CHR 0x0A] @ ''... [truncated]''"

text \<open>
  The \<open>try\<close> block of \<open>get_document_content\<close>: the fetch of the file and the truncation
  of its text; what it throws ends as the \<open>error\<close> of the result.
\<close>

definition fetch_content :: "env \<Rightarrow> row \<Rightarrow> val" where
  "fetch_content e doc =
     (case net e (to_string (get_prop doc ''file_url'')) of
        Fails m \<Rightarrow> VObj [(''document'', VObj doc), (''content'', VNull), (''error'', VStr m)]
      | Responds d code text \<Rightarrow>
          if \<not> ok code then
            VObj [(''document'', VObj doc), (''content'', VNull),
                  (''error'', VStr (''Failed to fetch: '' @ show_nat code))]
          else
            (let truncated = (length text > 50000);
                 content = (if truncated then take 50000 text @ truncation_marker else text)
             in VObj [(''document'', VObj doc), (''content'', VStr content),
                      (''truncated'', VBool truncated)]))"

definition get_document_content :: "env \<Rightarrow> val \<Rightarrow> store \<Rightarrow> outcome" where
  "get_document_content e document_id s =
     (case refused e 0 of
        Some m \<Rightarrow> (Inl m, s)
      | None \<Rightarrow>
          (case eq_filter ''id'' document_id (tables s ''documents'') of
             [r] \<Rightarrow>
               (let doc = embed_company s r;
                    file_type = get_prop doc ''file_type''
                in case (case file_type of
                           VUndef \<Rightarrow> Inr VUndef
                         | VNull \<Rightarrow> Inr VUndef
                         | VStr t \<Rightarrow> Inr (VStr (toLowerCase t))
                         | v \<Rightarrow> Inl (no_method ''doc.file_type'' v ''toLowerCase'')) of
                     Inl m \<Rightarrow> (Inl m, s)
                   | Inr ext \<Rightarrow>
                       if ext \<notin> set textFormats then
                         (Inr (VObj [(''document'', VObj doc),
                                     (''content'', VNull),
                                     (''message'', VStr (''Cannot read content of .'' @ to_string ext
                                        @ '' files directly. Use the URL to view: ''
                                        @ to_string (get_prop doc ''file_url'')))]), s)
                       else
                         (Inr (fetch_content e doc),
                          s\<lparr>requests := requests s @ [to_string (get_prop doc ''file_url'')]\<rparr>))
           | _ \<Rightarrow> (Inl no_single_row, s)))"

definition list_all_documents :: "env \<Rightarrow> val \<Rightarrow> val \<Rightarrow> store \<Rightarrow> outcome" where
  "list_all_documents e slug category s =
     (let rows1 =
            (if truthy slug then
               (if slug = VStr ''platform'' \<or> slug = VStr ''dev''
                then is_null_filter ''company_id'' (tables s ''documents'')
                else (case find_company s slug of
                        VObj company \<Rightarrow>
                          eq_filter ''company_id'' (get_prop company ''id'') (tables s ''documents'')
                      | _ \<Rightarrow> tables s ''documents''))
             else tables s ''documents'');
          rows2 = (if truthy category then eq_filter ''category'' category rows1 else rows1)
      in case refused e 0 of
           Some m \<Rightarrow> (Inl m, s)
         | None \<Rightarrow>
             (Inr (VArr (map (\<lambda>r. VObj (embed_company s r))
                (order_by ''created_at'' False rows2))), s))"

section \<open>Deployments\<close>

text \<open>One component as \<open>get_deployment\<close> reports it under the key of its type.\<close>

definition component_view :: "row \<Rightarrow> val" where
  "component_view c =
     VObj (spread [(''status'', col c ''status''),
                   (''url'', col c ''url''),
                   (''last_checked'', col c ''last_checked''),
                   (''error_message'', col c ''error_message'')]
                  (own_props (col c ''config'')))"

definition get_deployment :: "env \<Rightarrow> val \<Rightarrow> val \<Rightarrow> store \<Rightarrow> outcome" where
  "get_deployment e slug deployment_id s =
     (if \<not> truthy deployment_id \<and> \<not> truthy slug then
        (Inl ''Must provide slug or deployment_id'', s)
      else
        (let found = (if truthy deployment_id
                      then eq_filter ''id'' deployment_id (tables s ''deployments'')
                      else eq_filter ''slug'' slug (tables s ''deployments''))
         in case refused e 0 of
              Some m \<Rightarrow> (Inl m, s)
            | None \<Rightarrow>
                (case found of
                   [deployment] \<Rightarrow>
                     (case refused e 1 of
                        Some m \<Rightarrow> (Inl m, s)
                      | None \<Rightarrow>
                          (let components = eq_filter ''deployment_id'' (col deployment ''id'')
                                              (tables s ''deployment_components'')
                           in (Inr (VObj (fold (\<lambda>c result.
                                   set_prop (to_string (col c ''component_type''))
                                     (component_view c) result) components deployment)), s)))
                 | _ \<Rightarrow> (Inl no_single_row, s))))"

definition slug_taken :: "string \<Rightarrow> string" where
  "slug_taken slug = ''Deployment with slug '' @ [CHR 0x22] @ slug @ [CHR 0x22] @ '' already exists''"

text \<open>The four rows \<open>add_deployment\<close> inserts for a new deployment.\<close>

definition new_components :: "val \<Rightarrow> val \<Rightarrow> val \<Rightarrow> val \<Rightarrow> val \<Rightarrow> val \<Rightarrow> row list" where
  "new_components deployment_id github_url frontend_url mcp_server_url database_type
     database_provider =
     [[(''deployment_id'', deployment_id),
       (''component_type'', VStr ''github''),
       (''status'', VStr (if truthy github_url then ''unknown'' else ''not_configured'')),
       (''url'', github_url),
       (''config'', if truthy github_url
                    then VObj [(''repo_url'', github_url), (''branch'', VStr ''main'')]
                    else VObj [])],
      [(''deployment_id'', deployment_id),
       (''component_type'', VStr ''frontend''),
       (''status'', VStr (if truthy frontend_url then ''unknown'' else ''not_configured'')),
       (''url'', frontend_url),
       (''config'', VObj [])],
      [(''deployment_id'', deployment_id),
       (''component_type'', VStr ''mcp_server''),
       (''status'', VStr (if truthy mcp_server_url then ''unknown'' else ''not_configured'')),
       (''url'', mcp_server_url),
       (''config'', VObj [])],
      [(''deployment_id'', deployment_id),
       (''component_type'', VStr ''database''),
       (''status'', VStr (if truthy database_type then ''unknown'' else ''not_configured'')),
       (''url'', VNull),
       (''config'', VObj [(''type'', js_or database_type VNull),
                          (''provider'', js_or database_provider VNull)])]]"

text \<open>
  Of the lookup of the slug only \<open>data\<close> is read: when the store fails it, \<open>existing\<close>
  is \<open>null\<close> as it is for a slug that is free, and also when more than one deployment
  has the slug, which \<open>.single()\<close> reports as an error. Whether the store itself keeps
  the slugs of deployments apart is not known, the table being declared in none of the
  sources; the model has the insert accepted or refused as \<open>refused\<close> says.

  The final \<open>handlers.get_deployment(...)\<close> is a nested call: the requests it makes to
  the store are the third and the fourth that the whole call has inspected.
\<close>

definition add_deployment ::
  "env \<Rightarrow> val \<Rightarrow> val \<Rightarrow> val \<Rightarrow> val \<Rightarrow> val \<Rightarrow> val \<Rightarrow> val \<Rightarrow> store \<Rightarrow> outcome" where
  "add_deployment e name description github_url frontend_url mcp_server_url database_type
     database_provider s =
     (case name of
        VStr n \<Rightarrow>
          (let slug = derive_slug n;
               existing = (if failed e 0 then VNull
                           else single (map (select_cols [''id''])
                                  (eq_filter ''slug'' (VStr slug) (tables s ''deployments''))))
           in if truthy existing then (Inl (slug_taken slug), s)
              else
                (case refused e 0 of
                   Some m \<Rightarrow> (Inl m, s)
                 | None \<Rightarrow>
                     (let (inserted, s1) = insert_rows ''deployments'' (db_clock e)
                            [[(''name'', name), (''slug'', VStr slug),
                              (''description'', description), (''status'', VStr ''active'')]] s;
                          deployment_id = (case inserted of r # _ \<Rightarrow> col r ''id'' | [] \<Rightarrow> VUndef)
                      in case refused e 1 of
                           Some m \<Rightarrow> (Inl m, s1)
                         | None \<Rightarrow>
                             (let (cs, s2) = insert_rows ''deployment_components'' (db_clock e)
                                    (new_components deployment_id github_url frontend_url
                                       mcp_server_url database_type database_provider) s1
                              in get_deployment (e\<lparr>refused := \<lambda>k. refused e (k + 2)\<rparr>)
                                   VUndef deployment_id s2))))
      | v \<Rightarrow> (Inl (no_method ''name'' v ''toLowerCase''), s))"

definition deployment_updates :: "env \<Rightarrow> val \<Rightarrow> val \<Rightarrow> val \<Rightarrow> row" where
  "deployment_updates e name description status =
     [(''updated_at'', VStr (clock e 0))]
     @ (if truthy name then [(''name'', name)] else [])
     @ (if description \<noteq> VUndef then [(''description'', description)] else [])
     @ (if truthy status then [(''status'', status)] else [])"

definition update_deployment :: "env \<Rightarrow> val \<Rightarrow> val \<Rightarrow> val \<Rightarrow> val \<Rightarrow> store \<Rightarrow> outcome" where
  "update_deployment e deployment_id name description status s =
     (let updates = deployment_updates e name description status
      in case refused e 0 of
           Some m \<Rightarrow> (Inl m, s)
         | None \<Rightarrow>
             (let (data, s') = update_rows ''deployments'' (\<lambda>r. col r ''id'' = deployment_id)
                                 updates s
              in case data of
                   [r] \<Rightarrow> (Inr (VObj [(''success'', VBool True), (''deployment'', VObj r)]), s')
                 | _ \<Rightarrow> (Inl no_single_row, s')))"

text \<open>
  The object \<open>updates\<close> of \<open>update_deployment_component\<close>; \<open>existing\<close> is the \<open>data\<close>
  of the lookup of the component's present \<open>config\<close>.
\<close>

definition component_updates :: "env \<Rightarrow> val \<Rightarrow> val \<Rightarrow> val \<Rightarrow> val \<Rightarrow> row" where
  "component_updates e existing status url config =
     [(''updated_at'', VStr (clock e 0))]
     @ (if truthy status then [(''status'', status)] else [])
     @ (if url \<noteq> VUndef then [(''url'', url)] else [])
     @ (if truthy config then
          [(''config'',
            VObj (spread (own_props (js_or (get_prop (own_props existing) ''config'') (VObj [])))
                    (own_props config)))]
        else [])"

definition update_deployment_component ::
  "env \<Rightarrow> val \<Rightarrow> val \<Rightarrow> val \<Rightarrow> val \<Rightarrow> val \<Rightarrow> store \<Rightarrow> outcome" where
  "update_deployment_component e deployment_id component status url config s =
     (let addressed = (\<lambda>r. col r ''deployment_id'' = deployment_id \<and>
                            col r ''component_type'' = component);
          existing = single (map (select_cols [''config''])
                       (filter addressed (tables s ''deployment_components'')));
          updates = component_updates e existing status url config
      in case refused e 0 of
           Some m \<Rightarrow> (Inl m, s)
         | None \<Rightarrow>
             (let (data, s') = update_rows ''deployment_components'' addressed updates s
              in case data of
                   [r] \<Rightarrow> (Inr (VObj [(''success'', VBool True), (''component'', VObj r)]), s')
                 | _ \<Rightarrow> (Inl no_single_row, s')))"

definition delete_deployment :: "env \<Rightarrow> val \<Rightarrow> store \<Rightarrow> outcome" where
  "delete_deployment e deployment_id s =
     (case refused e 0 of
        Some m \<Rightarrow> (Inl m, s)
      | None \<Rightarrow>
          (Inr (VObj [(''success'', VBool True), (''deleted'', deployment_id)]),
           delete_rows ''deployments'' (\<lambda>r. col r ''id'' = deployment_id) s))"

section \<open>Health check\<close>

text \<open>
  \<open>fetch(url, {signal})\<close> under an \<open>AbortController\<close> that aborts after \<open>limit\<close>
  milliseconds: the response when the server answers within the limit, with the time it
  took, otherwise the rejection, which for an abort carries the message below.
\<close>

definition abort_message :: string where
  "abort_message = ''This operation was aborted''"

definition fetch_within :: "nat \<Rightarrow> server \<Rightarrow> string + nat \<times> nat" where
  "fetch_within limit srv =
     (case srv of
        Responds d code text \<Rightarrow> if d < limit then Inr (code, d) else Inl abort_message
      | Fails m \<Rightarrow> Inl m)"

text \<open>\<open>url.replace(/\/$/, '')\<close>\<close>

definition strip_trailing_slash :: "string \<Rightarrow> string" where
  "strip_trailing_slash u = (if u \<noteq> [] \<and> last u = CHR ''/'' then butlast u else u)"

text \<open>
  The URL that is probed: \<open>/health\<close> under the component's URL for an \<open>mcp_server\<close>,
  where a URL that is not a string has no \<open>replace\<close> method, and the URL itself (which
  \<open>fetch\<close> converts to a string) for the other types.
\<close>

definition check_url :: "row \<Rightarrow> string + string" where
  "check_url c =
     (if col c ''component_type'' = VStr ''mcp_server'' then
        (case col c ''url'' of
           VStr u \<Rightarrow> Inr (strip_trailing_slash u @ ''/health'')
         | v \<Rightarrow> Inl (no_method ''comp.url'' v ''replace''))
      else Inr (to_string (col c ''url'')))"

text \<open>
  The \<open>try\<close> block up to the response: what is thrown, or the status code and the
  measured latency; and the store with the request recorded.
\<close>

definition probe :: "env \<Rightarrow> row \<Rightarrow> store \<Rightarrow> (string + nat \<times> nat) \<times> store" where
  "probe e c s =
     (case check_url c of
        Inl m \<Rightarrow> (Inl m, s)
      | Inr target \<Rightarrow>
          (fetch_within 10000 (net e target), s\<lparr>requests := requests s @ [target]\<rparr>))"

text \<open>
  The update of the row of a probed component, awaited but with its result dropped. A
  probed component reads the clock twice and sends one update, so the update sent after
  \<open>k\<close> readings is the one numbered \<open>k div 2\<close>.
\<close>

definition persist :: "env \<Rightarrow> nat \<Rightarrow> row \<Rightarrow> row \<Rightarrow> store \<Rightarrow> store" where
  "persist e k c u s =
     (if failed e (k div 2) then s
      else snd (update_rows ''deployment_components'' (\<lambda>r. col r ''id'' = col c ''id'') u s))"

text \<open>
  One round of the loop over the components. The state of the loop is the result map,
  the store and the number of clock readings made so far.
\<close>

definition check_component :: "env \<Rightarrow> row \<Rightarrow> row \<times> store \<times> nat \<Rightarrow> row \<times> store \<times> nat" where
  "check_component e c st =
     (case st of (results, s, k) \<Rightarrow>
        if \<not> truthy (col c ''url'') then
          (set_prop (to_string (col c ''component_type''))
             (VObj [(''status'', VStr ''not_configured''), (''checked'', VBool False)]) results,
           s, k)
        else
          (case probe e c s of
             (Inr (code, latency), s1) \<Rightarrow>
               (let newStatus = (if ok code
                                 then (if latency > 5000 then ''degraded'' else ''healthy'')
                                 else ''degraded'');
                    errorMessage = (if ok code then VNull else VStr (''HTTP '' @ show_nat code));
                    s2 = persist e k c
                           [(''status'', VStr newStatus),
                            (''last_checked'', VStr (clock e k)),
                            (''error_message'', errorMessage),
                            (''updated_at'', VStr (clock e (k + 1)))] s1
                in (set_prop (to_string (col c ''component_type''))
                      (VObj [(''status'', VStr newStatus),
                             (''latency'', VNum (int latency)),
                             (''checked'', VBool True)]) results,
                    s2, k + 2))
           | (Inl m, s1) \<Rightarrow>
               (let s2 = persist e k c
                           [(''status'', VStr ''down''),
                            (''last_checked'', VStr (clock e k)),
                            (''error_message'', VStr m),
                            (''updated_at'', VStr (clock e (k + 1)))] s1
                in (set_prop (to_string (col c ''component_type''))
                      (VObj [(''status'', VStr ''down''),
                             (''error'', VStr m),
                             (''checked'', VBool True)]) results,
                    s2, k + 2))))"

definition check_deployment_health :: "env \<Rightarrow> val \<Rightarrow> store \<Rightarrow> outcome" where
  "check_deployment_health e deployment_id s =
     (case refused e 0 of
        Some m \<Rightarrow> (Inl m, s)
      | None \<Rightarrow>
          (let components = eq_filter ''deployment_id'' deployment_id
                              (tables s ''deployment_components'');
               (results, s', k) = fold (check_component e) components ([], s, 0)
           in (Inr (VObj [(''deployment_id'', deployment_id),
                          (''health_check'', VObj results)]), s')))"

section \<open>The handler table\<close>

definition list_companies :: "env \<Rightarrow> store \<Rightarrow> outcome" where
  "list_companies e s =
     (case refused e 0 of
        Some m \<Rightarrow> (Inl m, s)
      | None \<Rightarrow>
          (Inr (VArr (map (\<lambda>r. VObj (select_cols
              [''id'', ''slug'', ''name'', ''description'', ''status'', ''tools'', ''created_at''] r))
              (tables s ''companies''))), s))"

definition delete_dev_task :: "env \<Rightarrow> val \<Rightarrow> store \<Rightarrow> outcome" where
  "delete_dev_task e task_id s =
     (case refused e 0 of
        Some m \<Rightarrow> (Inl m, s)
      | None \<Rightarrow>
          (Inr (VObj [(''success'', VBool True), (''deleted'', task_id)]),
           delete_rows ''dev_tasks'' (\<lambda>r. col r ''id'' = task_id) s))"

definition list_deployments :: "env \<Rightarrow> val \<Rightarrow> store \<Rightarrow> outcome" where
  "list_deployments e status s =
     (let rows = (if truthy status then eq_filter ''status'' status (tables s ''deployments'')
                  else tables s ''deployments'')
      in case refused e 0 of
           Some m \<Rightarrow> (Inl m, s)
         | None \<Rightarrow> (Inr (VArr (map VObj (order_by ''created_at'' False rows))), s))"

text \<open>
  A handler declared \<open>async name({a, b, ...})\<close> destructures its argument, which raises
  a \<open>TypeError\<close> on \<open>undefined\<close> and \<open>null\<close>; \<open>a\<close> is the first property it names.
\<close>

definition destructure :: "string \<Rightarrow> val \<Rightarrow> (row \<Rightarrow> store \<Rightarrow> outcome) \<Rightarrow> store \<Rightarrow> outcome" where
  "destructure a input f s =
     (if input = VUndef \<or> input = VNull then
        (Inl (''Cannot destructure property '' @ [CHR 0x27] @ a @ [CHR 0x27] @ '' of ''
              @ [CHR 0x27] @ to_string input @ [CHR 0x27] @ '' as it is '' @ to_string input
              @ ''.''), s)
      else f (own_props input) s)"

type_synonym 'w handler = "val \<Rightarrow> 'w \<Rightarrow> (string + val) \<times> 'w"

text \<open>
  The entries of \<open>handlers\<close> that are modelled above, under their names. The handlers
  for mail and calendar, \<open>get_company\<close>, \<open>send_project_update\<close>, \<open>list_dev_tasks\<close> and
  \<open>delete_document\<close> are left out.
\<close>

definition handler_list ::
  "(string \<Rightarrow> val \<Rightarrow> bool) \<Rightarrow> env \<Rightarrow> (string \<times> store handler) list" where
  "handler_list ilike e =
     [(''list_companies'', \<lambda>input. list_companies e),
      (''update_company_status'', \<lambda>input. destructure ''slug'' input (\<lambda>a.
         update_company_status e (get_prop a ''slug'') (get_prop a ''status''))),
      (''list_milestones'', \<lambda>input. destructure ''slug'' input (\<lambda>a.
         list_milestones e (get_prop a ''slug''))),
      (''update_milestone'', \<lambda>input. destructure ''milestone_id'' input (\<lambda>a.
         update_milestone e (get_prop a ''milestone_id'') (get_prop a ''status'')
           (get_prop a ''notes''))),
      (''add_milestone'', \<lambda>input. destructure ''slug'' input (\<lambda>a.
         add_milestone e (get_prop a ''slug'') (get_prop a ''title'') (get_prop a ''due_date''))),
      (''add_note'', \<lambda>input. destructure ''slug'' input (\<lambda>a.
         add_note e (get_prop a ''slug'') (get_prop a ''content'') (get_prop a ''type''))),
      (''get_recent_activity'', \<lambda>input. destructure ''slug'' input (\<lambda>a.
         get_recent_activity e (get_prop a ''slug'') (get_prop a ''limit''))),
      (''update_requirement'', \<lambda>input. destructure ''slug'' input (\<lambda>a.
         update_requirement ilike e (get_prop a ''slug'') (get_prop a ''item'')
           (get_prop a ''status''))),
      (''add_requirement'', \<lambda>input. destructure ''slug'' input (\<lambda>a.
         add_requirement e (get_prop a ''slug'') (get_prop a ''item'') (get_prop a ''status''))),
      (''list_documents'', \<lambda>input. destructure ''slug'' input (\<lambda>a.
         list_documents ''created_at'' e (get_prop a ''slug''))),
      (''add_document'', \<lambda>input. destructure ''slug'' input (\<lambda>a.
         add_document e (get_prop a ''slug'') (get_prop a ''name'') (get_prop a ''type'')
           (get_prop a ''url'') (get_prop a ''notes''))),
      (''add_contact'', \<lambda>input. destructure ''slug'' input (\<lambda>a.
         add_contact e (get_prop a ''slug'') (get_prop a ''name'') (get_prop a ''role'')
           (get_prop a ''email'') (get_prop a ''phone''))),
      (''list_contacts'', \<lambda>input. destructure ''slug'' input (\<lambda>a.
         list_contacts e (get_prop a ''slug''))),
      (''get_portfolio_summary'', \<lambda>input. get_portfolio_summary e),
      (''add_dev_task'', \<lambda>input. destructure ''title'' input (\<lambda>a.
         add_dev_task e (get_prop a ''title'') (get_prop a ''description'')
           (get_prop a ''assigned_to'') (get_prop a ''priority'') (get_prop a ''steps'')
           (get_prop a ''due_date''))),
      (''update_dev_task'', \<lambda>input. destructure ''task_id'' input (\<lambda>a.
         update_dev_task e (get_prop a ''task_id'') (get_prop a ''status'')
           (get_prop a ''assigned_to'') (get_prop a ''priority''))),
      (''delete_dev_task'', \<lambda>input. destructure ''task_id'' input (\<lambda>a.
         delete_dev_task e (get_prop a ''task_id''))),
      (''upload_document'', \<lambda>input. destructure ''slug'' input (\<lambda>a.
         upload_document e (get_prop a ''slug'') (get_prop a ''filename'')
           (get_prop a ''content_base64'') (get_prop a ''content_type'')
           (get_prop a ''category'') (get_prop a ''description''))),
      (''get_document_content'', \<lambda>input. destructure ''document_id'' input (\<lambda>a.
         get_document_content e (get_prop a ''document_id''))),
      (''list_all_documents'', \<lambda>input. destructure ''slug'' input (\<lambda>a.
         list_all_documents e (get_prop a ''slug'') (get_prop a ''category''))),
      (''list_deployments'', \<lambda>input. destructure ''status'' input (\<lambda>a.
         list_deployments e (get_prop a ''status''))),
      (''get_deployment'', \<lambda>input. destructure ''slug'' input (\<lambda>a.
         get_deployment e (get_prop a ''slug'') (get_prop a ''deployment_id''))),
      (''add_deployment'', \<lambda>input. destructure ''name'' input (\<lambda>a.
         add_deployment e (get_prop a ''name'') (get_prop a ''description'')
           (get_prop a ''github_url'') (get_prop a ''frontend_url'')
           (get_prop a ''mcp_server_url'') (get_prop a ''database_type'')
           (get_prop a ''database_provider''))),
      (''update_deployment'', \<lambda>input. destructure ''deployment_id'' input (\<lambda>a.
         update_deployment e (get_prop a ''deployment_id'') (get_prop a ''name'')
           (get_prop a ''description'') (get_prop a ''status''))),
      (''update_deployment_component'', \<lambda>input. destructure ''deployment_id'' input (\<lambda>a.
         update_deployment_component e (get_prop a ''deployment_id'') (get_prop a ''component'')
           (get_prop a ''status'') (get_prop a ''url'') (get_prop a ''config''))),
      (''delete_deployment'', \<lambda>input. destructure ''deployment_id'' input (\<lambda>a.
         delete_deployment e (get_prop a ''deployment_id''))),
      (''check_deployment_health'', \<lambda>input. destructure ''deployment_id'' input (\<lambda>a.
         check_deployment_health e (get_prop a ''deployment_id'')))]"

definition handlers :: "(string \<Rightarrow> val \<Rightarrow> bool) \<Rightarrow> env \<Rightarrow> string \<rightharpoonup> store handler" where
  "handlers ilike e = map_of (handler_list ilike e)"

text \<open>
  The states of the store that the handlers can bring about, starting from any state
  without deployments and components. Every call takes place in some environment; the
  parameter \<open>A\<close> says which environments are admitted for which handler.
\<close>

inductive reachable :: "(string \<Rightarrow> env \<Rightarrow> bool) \<Rightarrow> store \<Rightarrow> bool"
  for A :: "string \<Rightarrow> env \<Rightarrow> bool" where
  initial: "tables s ''deployments'' = [] \<Longrightarrow> tables s ''deployment_components'' = []
            \<Longrightarrow> reachable A s"
| call: "reachable A s \<Longrightarrow> handlers ilike e name = Some h \<Longrightarrow> A name e
         \<Longrightarrow> reachable A (snd (h input s))"

text \<open>The components of a deployment, and the four types every deployment is to have.\<close>

definition components_of :: "store \<Rightarrow> row \<Rightarrow> row list" where
  "components_of s d =
     eq_filter ''deployment_id'' (col d ''id'') (tables s ''deployment_components'')"

definition component_types :: "val list" where
  "component_types = map VStr [''github'', ''frontend'', ''mcp_server'', ''database'']"

definition four_components :: "store \<Rightarrow> bool" where
  "four_components s =
     (\<forall>d \<in> set (tables s ''deployments'').
        map (\<lambda>c. col c ''component_type'') (components_of s d) = component_types)"

section \<open>The agent loop\<close>

subsection \<open>\<open>JSON.stringify\<close>\<close>

definition hex_digit :: "nat \<Rightarrow> char" where
  "hex_digit d = ''0123456789abcdef'' ! (d mod 16)"

definition escape_char :: "char \<Rightarrow> string" where
  "escape_char c =
     (if c = CHR 0x22 then [CHR 0x5C, CHR 0x22]
      else if c = CHR 0x5C then [CHR 0x5C, CHR 0x5C]
      else if c = CHR 0x08 then [CHR 0x5C, CHR ''b'']
      else if c = CHR 0x0C then [CHR 0x5C, CHR ''f'']
      else if c = CHR 0x0A then [CHR 0x5C, CHR ''n'']
      else if c = CHR 0x0D then [CHR 0x5C, CHR ''r'']
      else if c = CHR 0x09 then [CHR 0x5C, CHR ''t'']
      else if (of_char c :: nat) < 32
        then [CHR 0x5C, CHR ''u'', CHR ''0'', CHR ''0'',
              hex_digit (of_char c div 16), hex_digit (of_char c)]
      else [c])"

definition quote :: "string \<Rightarrow> string" where
  "quote s = [CHR 0x22] @ concat (map escape_char s) @ [CHR 0x22]"

text \<open>
  The text of a value inside an array or an object: \<open>undefined\<close> is \<open>null\<close> in an
  array, and a property whose value is \<open>undefined\<close> is left out of its object.
\<close>

fun json :: "val \<Rightarrow> string"
  and json_items :: "val list \<Rightarrow> string list"
  and json_props :: "(string \<times> val) list \<Rightarrow> string list" where
  "json VUndef = ''null''"
| "json VNull = ''null''"
| "json (VBool b) = (if b then ''true'' else ''false'')"
| "json (VNum n) = show_int n"
| "json (VStr s) = quote s"
| "json (VId n) = quote (to_string (VId n))"
| "json (VArr vs) = ''['' @ join '','' (json_items vs) @ '']''"
| "json (VObj ps) = ''{'' @ join '','' (json_props ps) @ ''}''"
| "json_items [] = []"
| "json_items (v # vs) = json v # json_items vs"
| "json_props [] = []"
| "json_props ((k, v) # ps) =
     (if v = VUndef then json_props ps else (quote k @ '':'' @ json v) # json_props ps)"

definition JSON_stringify :: "val \<Rightarrow> val" where
  "JSON_stringify v = (if v = VUndef then VUndef else VStr (json v))"

subsection \<open>Dispatch\<close>

text \<open>
  \<open>handlers[name]\<close> reads a property of an ordinary object: an own property, which is
  one of the handlers, or else a property inherited from \<open>Object.prototype\<close>. The
  inherited ones are functions, called here with the handler table as \<open>this\<close> and the
  tool input as their only argument, except \<open>__proto__\<close>, which is an object. The handler
  table has no accessor properties, and its own properties are functions, which
  \<open>JSON.stringify\<close> leaves out.
\<close>

datatype 'w member = Fn "'w handler" | Not_fn

definition object_prototype :: "(string \<rightharpoonup> 'w handler) \<Rightarrow> string \<rightharpoonup> 'w member" where
  "object_prototype H = map_of
     [(''constructor'',
         Fn (\<lambda>input w. (Inr (if input = VUndef \<or> input = VNull then VObj [] else input), w))),
      (''__defineGetter__'',
         Fn (\<lambda>input w. (Inl ''Object.prototype.__defineGetter__: Expecting function'', w))),
      (''__defineSetter__'',
         Fn (\<lambda>input w. (Inl ''Object.prototype.__defineSetter__: Expecting function'', w))),
      (''hasOwnProperty'', Fn (\<lambda>input w. (Inr (VBool (H (to_string input) \<noteq> None)), w))),
      (''__lookupGetter__'', Fn (\<lambda>input w. (Inr VUndef, w))),
      (''__lookupSetter__'', Fn (\<lambda>input w. (Inr VUndef, w))),
      (''isPrototypeOf'', Fn (\<lambda>input w. (Inr (VBool False), w))),
      (''propertyIsEnumerable'', Fn (\<lambda>input w. (Inr (VBool (H (to_string input) \<noteq> None)), w))),
      (''toString'', Fn (\<lambda>input w. (Inr (VStr ''[object Object]''), w))),
      (''valueOf'', Fn (\<lambda>input w. (Inr (VObj []), w))),
      (''__proto__'', Not_fn),
      (''toLocaleString'', Fn (\<lambda>input w. (Inr (VStr ''[object Object]''), w)))]"

definition member :: "(string \<rightharpoonup> 'w handler) \<Rightarrow> string \<Rightarrow> 'w member option" where
  "member H name = (case H name of Some h \<Rightarrow> Some (Fn h) | None \<Rightarrow> object_prototype H name)"

definition cannot_read :: "val \<Rightarrow> string \<Rightarrow> string" where
  "cannot_read v p =
     ''Cannot read properties of '' @ to_string v @ '' (reading '' @ [CHR 0x27] @ p
     @ [CHR 0x27] @ '')''"

definition not_a_function :: string where
  "not_a_function = ''handlers[block.name] is not a function''"

definition result_entry :: "val \<Rightarrow> val \<Rightarrow> val" where
  "result_entry call_id result =
     VObj [(''type'', VStr ''tool_result''), (''tool_use_id'', call_id),
           (''content'', JSON_stringify result)]"

definition error_entry :: "val \<Rightarrow> string \<Rightarrow> val" where
  "error_entry call_id message =
     VObj [(''type'', VStr ''tool_result''), (''tool_use_id'', call_id),
           (''content'', JSON_stringify (VObj [(''error'', VStr message)])),
           (''is_error'', VBool True)]"

text \<open>The \<open>try\<close>/\<open>catch\<close> around one tool call: always one entry for the call's \<open>id\<close>.\<close>

definition run_tool :: "(string \<rightharpoonup> 'w handler) \<Rightarrow> row \<Rightarrow> 'w \<Rightarrow> val \<times> 'w" where
  "run_tool H block w =
     (case member H (to_string (get_prop block ''name'')) of
        Some (Fn h) \<Rightarrow>
          (case h (get_prop block ''input'') w of
             (Inr result, w') \<Rightarrow> (result_entry (get_prop block ''id'') result, w')
           | (Inl message, w') \<Rightarrow> (error_entry (get_prop block ''id'') message, w'))
      | _ \<Rightarrow> (error_entry (get_prop block ''id'') not_a_function, w))"

text \<open>
  \<open>for (const block of response.content)\<close>: the blocks of type \<open>tool_use\<close> are run in
  order, each pushing its entry onto \<open>toolResults\<close>. Reading \<open>block.type\<close> of a block
  that is \<open>null\<close> or \<open>undefined\<close> throws outside the inner \<open>try\<close>.
\<close>

fun run_blocks :: "(string \<rightharpoonup> 'w handler) \<Rightarrow> val list \<Rightarrow> 'w \<Rightarrow> (string + val list) \<times> 'w" where
  "run_blocks H [] w = (Inr [], w)"
| "run_blocks H (b # bs) w =
     (if b = VUndef \<or> b = VNull then (Inl (cannot_read b ''type''), w)
      else if get_prop (own_props b) ''type'' = VStr ''tool_use'' then
        (case run_tool H (own_props b) w of
           (entry, w1) \<Rightarrow>
             (case run_blocks H bs w1 of
                (Inr entries, w2) \<Rightarrow> (Inr (entry # entries), w2)
              | (Inl m, w2) \<Rightarrow> (Inl m, w2)))
      else run_blocks H bs w)"

text \<open>The elements a \<open>for ... of\<close> or a spread visits; \<open>None\<close> for what is not iterable.\<close>

definition iterate :: "val \<Rightarrow> val list option" where
  "iterate v =
     (case v of
        VArr vs \<Rightarrow> Some vs
      | VStr s \<Rightarrow> Some (map (\<lambda>c. VStr [c]) s)
      | VId n \<Rightarrow> Some (map (\<lambda>c. VStr [c]) (to_string (VId n)))
      | _ \<Rightarrow> None)"

subsection \<open>The loop\<close>

text \<open>
  The completion API is a function from the message history it is sent (the system
  prompt, the tool schemas and the model being the same in every request) to a response
  object, or to the message of the error with which the request fails.

  One round of \<open>while (response.stop_reason === 'tool_use')\<close> either ends the request
  with status 500, or goes on with the extended history and the next response. The
  history it goes on with is exactly the history sent in the round's completion request.
\<close>

datatype 'w round = Abort string 'w | Next "val list" row 'w

definition chat_round ::
  "(string \<rightharpoonup> 'w handler) \<Rightarrow> (val list \<Rightarrow> string + row) \<Rightarrow> val list \<Rightarrow> row \<Rightarrow> 'w \<Rightarrow> 'w round" where
  "chat_round H api messages response w =
     (let messages1 = messages @ [VObj [(''role'', VStr ''assistant''),
                                        (''content'', get_prop response ''content'')]]
      in case iterate (get_prop response ''content'') of
           None \<Rightarrow> Abort ''response.content is not iterable'' w
         | Some blocks \<Rightarrow>
             (case run_blocks H blocks w of
                (Inl m, w1) \<Rightarrow> Abort m w1
              | (Inr toolResults, w1) \<Rightarrow>
                  (let messages2 = messages1 @ [VObj [(''role'', VStr ''user''),
                                                      (''content'', VArr toolResults)]]
                   in case api messages2 of
                        Inl m \<Rightarrow> Abort m w1
                      | Inr response' \<Rightarrow> Next messages2 response' w1)))"

partial_function (option) tool_loop ::
  "(string \<rightharpoonup> 'w handler) \<Rightarrow> (val list \<Rightarrow> string + row) \<Rightarrow> val list \<Rightarrow> row \<Rightarrow> 'w
     \<Rightarrow> ((string + val list \<times> row) \<times> 'w) option" where
  "tool_loop H api messages response w =
     (if get_prop response ''stop_reason'' = VStr ''tool_use'' then
        (case chat_round H api messages response w of
           Abort m w' \<Rightarrow> Some (Inl m, w')
         | Next messages' response' w' \<Rightarrow> tool_loop H api messages' response' w')
      else Some (Inr (messages, response), w))"

text \<open>
  \<open>app.post('/chat')\<close>: the status and the body of the answer, and the state the
  handlers leave; \<open>None\<close> when the loop never ends.
\<close>

text \<open>\<open>response.content.find(b => b.type === 'text')\<close>\<close>

fun find_text :: "val list \<Rightarrow> string + val" where
  "find_text [] = Inr VUndef"
| "find_text (b # bs) =
     (if b = VUndef \<or> b = VNull then Inl (cannot_read b ''type'')
      else if get_prop (own_props b) ''type'' = VStr ''text'' then Inr b
      else find_text bs)"

definition chat ::
  "(string \<rightharpoonup> 'w handler) \<Rightarrow> (val list \<Rightarrow> string + row) \<Rightarrow> row \<Rightarrow> 'w \<Rightarrow> ((nat \<times> val) \<times> 'w) option" where
  "chat H api body w =
     (if \<not> truthy (get_prop body ''message'') then
        Some ((400, VObj [(''error'', VStr ''Message required'')]), w)
      else
        (case iterate (dflt (get_prop body ''conversation_history'') (VArr [])) of
           None \<Rightarrow> Some ((500, VObj [(''error'', VStr ''conversation_history is not iterable'')]), w)
         | Some history \<Rightarrow>
             (let messages = history @ [VObj [(''role'', VStr ''user''),
                                              (''content'', get_prop body ''message'')]]
              in case api messages of
                   Inl m \<Rightarrow> Some ((500, VObj [(''error'', VStr m)]), w)
                 | Inr response \<Rightarrow>
                     (case tool_loop H api messages response w of
                        None \<Rightarrow> None
                      | Some (Inl m, w') \<Rightarrow> Some ((500, VObj [(''error'', VStr m)]), w')
                      | Some (Inr (messages', response'), w') \<Rightarrow>
                          (case get_prop response' ''content'' of
                             VArr blocks \<Rightarrow>
                               (case find_text blocks of
                                  Inl m \<Rightarrow> Some ((500, VObj [(''error'', VStr m)]), w')
                                | Inr textContent \<Rightarrow>
                                    Some ((200, VObj [(''response'',
                                       js_or (get_prop (own_props textContent) ''text'')
                                         (VStr ''No response'')),
                                      (''conversation_history'',
                                       VArr (messages' @ [VObj [(''role'', VStr ''assistant''),
                                          (''content'', VArr blocks)]]))]), w'))
                           | v \<Rightarrow> Some ((500, VObj [(''error'',
                                  VStr (no_method ''response.content'' v ''find''))]), w'))))))"

section \<open>Notions used in the statements\<close>

text \<open>
  The number of components that the health check probes before the \<open>i\<close>-th of \<open>cs\<close>;
  it is also the number of the update that the health check sends for the \<open>i\<close>-th.
\<close>

definition turn :: "row list \<Rightarrow> nat \<Rightarrow> nat" where
  "turn cs i = length (filter (\<lambda>c. truthy (col c ''url'')) (take i cs))"

text \<open>
  What a call of \<open>check_deployment_health\<close> has reported for the component \<open>c\<close>, under
  the key of its type, and the rows that have the identifier of \<open>c\<close> after the call.
\<close>

definition health_entry :: "outcome \<Rightarrow> row \<Rightarrow> val" where
  "health_entry out c =
     (case fst out of
        Inr v \<Rightarrow> get_prop (own_props (get_prop (own_props v) ''health_check''))
                   (to_string (col c ''component_type''))
      | Inl m \<Rightarrow> VUndef)"

definition stored :: "outcome \<Rightarrow> row \<Rightarrow> row list" where
  "stored out c = eq_filter ''id'' (col c ''id'') (tables (snd out) ''deployment_components'')"

text \<open>
  After the call the component \<open>c\<close> has one row, which holds the status \<open>st\<close>, the error
  message \<open>em\<close> and the time \<open>t\<close> of the check.
\<close>

definition persisted :: "string \<Rightarrow> val \<Rightarrow> string \<Rightarrow> outcome \<Rightarrow> row \<Rightarrow> bool" where
  "persisted st em t out c =
     (case stored out c of
        [r] \<Rightarrow> col r ''status'' = VStr st \<and> col r ''error_message'' = em
               \<and> col r ''last_checked'' = VStr t
      | _ \<Rightarrow> False)"

text \<open>
  The update that the health check sends for a probed component after \<open>k\<close> readings of
  the clock, what one round of the loop makes of a row of the table, and what the
  rounds for the components \<open>cs\<close> make of it.
\<close>

definition health_update :: "env \<Rightarrow> row \<Rightarrow> nat \<Rightarrow> row" where
  "health_update e c k =
     (case fst (probe e c empty_store) of
        Inr (code, latency) \<Rightarrow>
          [(''status'', VStr (if ok code then (if latency > 5000 then ''degraded'' else ''healthy'')
                              else ''degraded'')),
           (''last_checked'', VStr (clock e k)),
           (''error_message'', if ok code then VNull else VStr (''HTTP '' @ show_nat code)),
           (''updated_at'', VStr (clock e (k + 1)))]
      | Inl m \<Rightarrow>
          [(''status'', VStr ''down''),
           (''last_checked'', VStr (clock e k)),
           (''error_message'', VStr m),
           (''updated_at'', VStr (clock e (k + 1)))])"

definition row_after :: "env \<Rightarrow> row \<Rightarrow> nat \<Rightarrow> row \<Rightarrow> row" where
  "row_after e c k r =
     (if truthy (col c ''url'') \<and> \<not> failed e (k div 2) \<and> col r ''id'' = col c ''id''
      then spread r (defined_props (health_update e c k)) else r)"

fun rows_after :: "env \<Rightarrow> row list \<Rightarrow> nat \<Rightarrow> row \<Rightarrow> row" where
  "rows_after e [] k r = r"
| "rows_after e (c # cs) k r =
     rows_after e cs (if truthy (col c ''url'') then k + 2 else k) (row_after e c k r)"

text \<open>What the health check reports for a component checked on its own.\<close>

definition report :: "env \<Rightarrow> row \<Rightarrow> val" where
  "report e c =
     get_prop (fst (check_component e c ([], empty_store, 0)))
       (to_string (col c ''component_type''))"

text \<open>The requests the health check issues for a component.\<close>

definition probes :: "row \<Rightarrow> string list" where
  "probes c =
     (if truthy (col c ''url'')
      then (case check_url c of Inr target \<Rightarrow> [target] | Inl m \<Rightarrow> [])
      else [])"

text \<open>The identifiers in the deployment tables have been drawn by the store.\<close>

definition deployments_inv :: "store \<Rightarrow> bool" where
  "deployments_inv s =
     ((\<forall>d \<in> set (tables s ''deployments''). \<exists>i < next_id s. col d ''id'' = VId i)
      \<and> (\<forall>c \<in> set (tables s ''deployment_components'').
            \<exists>i < next_id s. col c ''deployment_id'' = VId i))"

text \<open>No two deployments have the same slug.\<close>

definition distinct_slugs :: "store \<Rightarrow> bool" where
  "distinct_slugs s = distinct (map (\<lambda>d. col d ''slug'') (tables s ''deployments''))"


text \<open>
  From \<open>s\<close> to \<open>s'\<close> the deployment tables keep their rows, each deployment its
  identifier and its slug, each component its deployment and its type.
\<close>

definition rows_kept :: "store \<Rightarrow> store \<Rightarrow> bool" where
  "rows_kept s s' =
     (next_id s \<le> next_id s'
      \<and> list_all2 (\<lambda>d d'. col d' ''id'' = col d ''id'' \<and> col d' ''slug'' = col d ''slug'')
           (tables s ''deployments'') (tables s' ''deployments'')
      \<and> list_all2 (\<lambda>c c'. col c' ''deployment_id'' = col c ''deployment_id''
                          \<and> col c' ''component_type'' = col c ''component_type'')
           (tables s ''deployment_components'') (tables s' ''deployment_components''))"

section \<open>An environment for the examples\<close>

text \<open>
  The clock stands still, the store accepts and answers every request and no server can
  be reached.
\<close>

definition still_env :: env where
  "still_env =
     \<lparr>clock = (\<lambda>k. ''2026-01-02T00:00:00.000Z''),
      db_clock = ''2026-01-02T00:00:00.000Z'',
      refused = (\<lambda>k. None),
      failed = (\<lambda>k. False),
      public_url = (\<lambda>p. ''https://store.example/'' @ p),
      net = (\<lambda>u. Fails ''fetch failed'')\<rparr>"

text \<open>The hyphen that \<open>replace_runs\<close> leaves after the last word of a string.\<close>

definition tail_mark :: "string \<Rightarrow> string" where
  "tail_mark s = (if s \<noteq> [] \<and> \<not> alnum (last s) then ''-'' else [])"

section \<open>Evaluation\<close>

declare bits.simps [simp del]
declare show_nat.simps [simp del]

lemma bits_0: "bits 0 = 0"
  by (simp add: bits.simps)

lemma bits_Suc0: "bits (Suc 0) = 1"
  by (simp add: bits.simps[of "Suc 0"] bits_0)

lemma bits_numeral:
  "bits (numeral k) = (if numeral k = (0::nat) then 0 else Suc (bits (numeral k div 2)))"
  by (rule bits.simps)

lemmas bits_eval = bits_0 bits_Suc0 bits_numeral

lemma show_nat_numeral:
  "show_nat (numeral k) =
     (if numeral k < (10::nat) then [digit (numeral k)]
      else show_nat (numeral k div 10) @ [digit (numeral k)])"
  by (rule show_nat.simps)

lemma show_nat_0: "show_nat 0 = ''0''"
  by (simp add: show_nat.simps digit_def)

lemma show_nat_1: "show_nat (Suc 0) = ''1''"
  by (simp add: show_nat.simps[of "Suc 0"] digit_def)

lemmas show_eval = show_nat_numeral show_nat_0 show_nat_1 digit_def

section \<open>Objects and rows\<close>

lemma map_of_spread: "map_of (spread r u) = map_of r ++ map_of (rev u)"
proof (induction u arbitrary: r)
  case Nil
  show ?case by (simp add: spread_def)
next
  case (Cons p u)
  obtain k v where p: "p = (k, v)" by (cases p)
  have "spread r (p # u) = spread (set_prop k v r) u" by (simp add: spread_def p)
  then show ?case using Cons[of "set_prop k v r"]
    by (simp add: p set_prop_def update_conv' map_add_upd_left fun_eq_iff map_add_def split: option.splits)
qed

lemma col_spread: "col (spread r u) k = (case map_of (rev u) k of Some v \<Rightarrow> v | None \<Rightarrow> col r k)"
  by (simp add: col_def map_of_spread map_add_def split: option.splits)

lemma col_spread_other: "k \<notin> fst ` set u \<Longrightarrow> col (spread r u) k = col r k"
  by (simp add: col_spread map_of_eq_None_iff[THEN iffD2])

lemma tables_update_rows:
  "tables (snd (update_rows t p u s)) t' =
     (if t' = t then map (\<lambda>r. if p r then spread r (defined_props u) else r) (tables s t) else tables s t')"
  by (simp add: update_rows_def)

lemma keys_defined_props: "k \<notin> fst ` set u \<Longrightarrow> k \<notin> fst ` set (defined_props u)"
  by (auto simp: defined_props_def)

lemma col_update_other:
  "k \<notin> fst ` set u \<Longrightarrow> col (spread r (defined_props u)) k = col r k"
  by (simp add: col_spread_other keys_defined_props)

section \<open>The slug of a deployment\<close>

lemma hyphen_not_alnum: "\<not> alnum CHR ''-''" by (simp add: alnum_def)

lemma words_acc_alnum: "\<forall>c\<in>set p. alnum c \<Longrightarrow> words_acc w (p @ r) = words_acc (w @ p) r"
  by (induction p arbitrary: w) auto

lemma words_acc_skip: "\<forall>c\<in>set p. \<not> alnum c \<Longrightarrow> words_acc [] (p @ r) = words_acc [] r"
  by (induction p) auto

lemma replace_runs_alnum: "\<forall>c\<in>set p. alnum c \<Longrightarrow> replace_runs (p @ r) = p @ replace_runs r"
  by (induction p) auto

lemma words_acc_nonalnum_head:
  "\<not> alnum c \<Longrightarrow> words_acc w (c # cs) = (if w = [] then [] else [w]) @ words_acc [] (dropWhile (\<lambda>d. \<not> alnum d) cs)"
proof -
  assume c: "\<not> alnum c"
  have "words_acc [] (takeWhile (\<lambda>d. \<not> alnum d) cs @ dropWhile (\<lambda>d. \<not> alnum d) cs) = words_acc [] (dropWhile (\<lambda>d. \<not> alnum d) cs)"
    by (rule words_acc_skip) (auto dest: set_takeWhileD)
  then show ?thesis using c by simp
qed

lemma words_acc_nonempty: "w \<noteq> [] \<Longrightarrow> words_acc w s \<noteq> []"
  by (induction s arbitrary: w) auto

lemma words_acc_alnum_words:
  "\<forall>c\<in>set w. alnum c \<Longrightarrow> v \<in> set (words_acc w s) \<Longrightarrow> v \<noteq> [] \<and> (\<forall>c\<in>set v. alnum c)"
proof (induction s arbitrary: w)
  case Nil
  then show ?case by (auto split: if_splits)
next
  case (Cons a s)
  show ?case
  proof (cases "alnum a")
    case True
    then have "v \<in> set (words_acc (w @ [a]) s)" using Cons.prems by simp
    moreover have "\<forall>c\<in>set (w @ [a]). alnum c" using True Cons.prems by simp
    ultimately show ?thesis using Cons.IH by blast
  next
    case False
    then have "v = w \<and> w \<noteq> [] \<or> v \<in> set (words_acc [] s)"
      using Cons.prems by (auto split: if_splits)
    then show ?thesis using Cons.IH[of "[]"] Cons.prems(1) by auto
  qed
qed

lemma join_ends:
  "ws \<noteq> [] \<Longrightarrow> \<forall>v\<in>set ws. v \<noteq> [] \<Longrightarrow>
   join sep ws \<noteq> [] \<and> hd (join sep ws) = hd (hd ws) \<and> last (join sep ws) = last (last ws)"
  by (induction sep ws rule: join.induct) auto

lemma replace_runs_words:
  "s = [] \<or> alnum (hd s) \<Longrightarrow> replace_runs s = join ''-'' (words_acc [] s) @ tail_mark s"
proof (induction "length s" arbitrary: s rule: less_induct)
  case less
  show ?case
  proof (cases s)
    case Nil then show ?thesis by (simp add: tail_mark_def)
  next
    case (Cons a as)
    define p where "p = takeWhile alnum s"
    define r where "r = dropWhile alnum s"
    have s: "s = p @ r" by (simp add: p_def r_def)
    have pa: "\<forall>c\<in>set p. alnum c" by (auto simp: p_def dest: set_takeWhileD)
    have pne: "p \<noteq> []" using less.prems Cons by (simp add: p_def)
    show ?thesis
    proof (cases r)
      case Nil
      then show ?thesis using s pa pne replace_runs_alnum[OF pa, of "[]"] words_acc_alnum[OF pa, of "[]" "[]"]
        by (simp add: tail_mark_def)
    next
      case (Cons c cs)
      have cn: "\<not> alnum c" using Cons unfolding r_def by (metis hd_dropWhile list.sel(1) list.distinct(1))
      define r' where "r' = dropWhile (\<lambda>d. \<not> alnum d) cs"
      have r'h: "r' = [] \<or> alnum (hd r')" unfolding r'_def by (metis hd_dropWhile)
      have len: "length r' < length s" using s Cons pne unfolding r'_def
        using length_dropWhile_le[of "\<lambda>d. \<not> alnum d" cs] by simp
      have ih: "replace_runs r' = join ''-'' (words_acc [] r') @ tail_mark r'"
        using less.hyps[OF len r'h] .
      have rr: "replace_runs s = p @ CHR ''-'' # replace_runs r'"
        using replace_runs_alnum[OF pa, of r] s Cons cn by (simp add: r'_def)
      have ww: "words_acc [] s = p # words_acc [] r'"
        using words_acc_alnum[OF pa, of "[]" r] s Cons words_acc_nonalnum_head[OF cn, of p cs] pne
        by (simp add: r'_def)
      show ?thesis
      proof (cases r')
        case Nil
        have "\<not> alnum (last s)"
        proof -
          have "dropWhile (\<lambda>d. \<not> alnum d) cs = []" using Nil r'_def by simp
          then have "\<forall>d\<in>set cs. \<not> alnum d" by (simp add: dropWhile_eq_Nil_conv)
          then have "\<forall>d\<in>set r. \<not> alnum d" using Cons cn by simp
          moreover have "last s = last r" using s Cons by simp
          moreover have "last r \<in> set r" using Cons by simp
          ultimately show ?thesis by metis
        qed
        then show ?thesis using rr ww Nil s pne by (simp add: tail_mark_def)
      next
        case (Cons b bs)
        have bal: "alnum b" using r'h Cons by simp
        obtain w ws where W: "words_acc [] r' = w # ws"
          using Cons bal words_acc_nonempty[of "[b]" bs] by (cases "words_acc [] r'") auto
        have ls: "last s = last r'"
        proof -
          have "cs = takeWhile (\<lambda>d. \<not> alnum d) cs @ r'" by (simp add: r'_def)
          then have "s = (p @ c # takeWhile (\<lambda>d. \<not> alnum d) cs) @ r'" using s \<open>r = c # cs\<close> by simp
          then show ?thesis using Cons by (metis last_appendR list.distinct(1))
        qed
        have tm: "tail_mark s = tail_mark r'" using ls Cons s pne by (simp add: tail_mark_def)
        have "replace_runs s = p @ CHR ''-'' # join ''-'' (w # ws) @ tail_mark s"
          using rr ih W tm by simp
        moreover have "join ''-'' (words_acc [] s) = p @ CHR ''-'' # join ''-'' (w # ws)"
          using ww W by simp
        ultimately show ?thesis by simp
      qed
    qed
  qed
qed


lemma join_words_ends:
  assumes "words_acc [] s \<noteq> []"
  shows "join ''-'' (words_acc [] s) \<noteq> [] \<and> hd (join ''-'' (words_acc [] s)) \<noteq> CHR ''-''
         \<and> last (join ''-'' (words_acc [] s)) \<noteq> CHR ''-''"
proof -
  let ?W = "words_acc [] s"
  have al: "\<forall>v\<in>set ?W. v \<noteq> [] \<and> (\<forall>c\<in>set v. alnum c)"
    using words_acc_alnum_words[of "[]" _ s] by simp
  then have ne: "\<forall>v\<in>set ?W. v \<noteq> []" by blast
  have e: "join ''-'' ?W \<noteq> [] \<and> hd (join ''-'' ?W) = hd (hd ?W) \<and> last (join ''-'' ?W) = last (last ?W)"
    using join_ends[OF assms ne] .
  have "hd ?W \<in> set ?W" "last ?W \<in> set ?W" using assms by simp_all
  then have "alnum (hd (hd ?W))" "alnum (last (last ?W))" using al by (metis hd_in_set, metis last_in_set)
  then show ?thesis using e hyphen_not_alnum by metis
qed

lemma strip_edges_join:
  assumes "J \<noteq> []" "hd J \<noteq> CHR ''-''" "last J \<noteq> CHR ''-''"
  shows "strip_edges (J @ tail_mark s) = J" "strip_edges (CHR ''-'' # J @ tail_mark s) = J"
proof -
  obtain a as where J: "J = a # as" using assms(1) by (cases J) auto
  have a: "a \<noteq> CHR ''-''" using assms(2) J by simp
  have l: "last (a # as) \<noteq> CHR ''-''" using assms(3) J by simp
  show "strip_edges (J @ tail_mark s) = J"
    using a l unfolding J strip_edges_def tail_mark_def by (auto simp: butlast_append Let_def)
  show "strip_edges (CHR ''-'' # J @ tail_mark s) = J"
    using a l unfolding J strip_edges_def tail_mark_def by (auto simp: butlast_append Let_def)
qed

lemma slug_of_alnum_start:
  assumes "s \<noteq> []" "alnum (hd s)"
  shows "strip_edges (replace_runs s) = join ''-'' (words_acc [] s)"
    and "strip_edges (CHR ''-'' # replace_runs s) = join ''-'' (words_acc [] s)"
proof -
  obtain a as where s: "s = a # as" using assms by (cases s) auto
  have "words_acc [] s \<noteq> []" using s assms words_acc_nonempty[of "[a]" as] by simp
  from join_words_ends[OF this] replace_runs_words[of s] assms
  show "strip_edges (replace_runs s) = join ''-'' (words_acc [] s)"
    and "strip_edges (CHR ''-'' # replace_runs s) = join ''-'' (words_acc [] s)"
    by (simp_all add: strip_edges_join)
qed

lemma strip_replace_runs: "strip_edges (replace_runs s) = join ''-'' (words_acc [] s)"
proof (cases s)
  case Nil then show ?thesis by (simp add: strip_edges_def)
next
  case (Cons c cs)
  show ?thesis
  proof (cases "alnum c")
    case True then show ?thesis using slug_of_alnum_start(1)[of s] Cons by simp
  next
    case False
    define r where "r = dropWhile (\<lambda>d. \<not> alnum d) cs"
    have w: "words_acc [] s = words_acc [] r" using words_acc_nonalnum_head[OF False, of "[]" cs] Cons by (simp add: r_def)
    have rr: "replace_runs s = CHR ''-'' # replace_runs r" using Cons False by (simp add: r_def)
    show ?thesis
    proof (cases r)
      case Nil then show ?thesis using w rr by (simp add: strip_edges_def)
    next
      case (Cons b bs)
      have "alnum (hd r)" unfolding r_def using Cons r_def by (metis hd_dropWhile list.distinct(1))
      then show ?thesis using slug_of_alnum_start(2)[of r] Cons w rr by simp
    qed
  qed
qed


section \<open>Completion timestamps\<close>

lemma update_rows_snd_tables:
  "tables (snd (update_rows t p u s)) t' =
     (if t' = t then map (\<lambda>r. if p r then spread r (defined_props u) else r) (tables s t)
      else tables s t')"
  by (simp add: update_rows_def)

lemma update_milestone_snd:
  "snd (update_milestone e x status notes s) =
     (if refused e 0 = None
      then snd (update_rows ''milestones'' (\<lambda>r. col r ''id'' = x) (milestone_update e status notes) s)
      else s)"
  by (simp add: update_milestone_def Let_def split: option.splits prod.splits)

lemma update_dev_task_snd:
  "snd (update_dev_task e x status assigned_to priority s) =
     (if refused e 0 = None
      then snd (update_rows ''dev_tasks'' (\<lambda>r. col r ''id'' = x)
                  (dev_task_updates e status assigned_to priority) s)
      else s)"
  by (simp add: update_dev_task_def Let_def split: option.splits prod.splits list.splits)

lemma milestone_update_cols:
  "col (spread r (defined_props (milestone_update e status notes))) ''id'' = col r ''id''"
  "col (spread r (defined_props (milestone_update e status notes))) ''completed_at'' =
     (if status = VStr ''done'' then VStr (clock e 1) else col r ''completed_at'')"
  by (simp_all add: col_spread defined_props_def milestone_update_def)

lemma dev_task_updates_cols:
  "col (spread r (defined_props (dev_task_updates e status assigned_to priority))) ''id'' = col r ''id''"
  "col (spread r (defined_props (dev_task_updates e status assigned_to priority))) ''completed_at'' =
     (if status = VStr ''done'' then VStr (clock e 1) else col r ''completed_at'')"
  by (simp_all add: col_spread defined_props_def dev_task_updates_def)

text \<open>
  C8. An update of a milestone, or of a dev task, leaves every row in its place and with
  its identifier. When the store accepts the update and the new status is \<open>done\<close>, the
  row addressed gets the clock reading as its \<open>completed_at\<close>, which is not \<open>null\<close>;
  in every other case (another status, another row, a refused update) \<open>completed_at\<close>
  is what it was, so a timestamp once set is never cleared.
\<close>

theorem completed_at_append_only:
  "list_all2 (\<lambda>r r'. col r' ''id'' = col r ''id'' \<and> col r' ''completed_at'' =
       (if refused e 0 = None \<and> col r ''id'' = x \<and> status = VStr ''done''
        then VStr (clock e 1) else col r ''completed_at''))
     (tables s ''milestones'')
     (tables (snd (update_milestone e x status notes s)) ''milestones'')
   \<and> list_all2 (\<lambda>r r'. col r' ''id'' = col r ''id'' \<and> col r' ''completed_at'' =
       (if refused e 0 = None \<and> col r ''id'' = x \<and> status = VStr ''done''
        then VStr (clock e 1) else col r ''completed_at''))
     (tables s ''dev_tasks'')
     (tables (snd (update_dev_task e x status assigned_to priority s)) ''dev_tasks'')
   \<and> VStr (clock e 1) \<noteq> VNull"
  by (auto simp: update_milestone_snd update_dev_task_snd update_rows_snd_tables list_all2_map2
        milestone_update_cols dev_task_updates_cols list_all2_same)

theorem completed_at_append_only_witness:
  "map (\<lambda>r. col r ''completed_at'')
     (tables (snd (update_milestone
        \<lparr>clock = (\<lambda>k. ''2026-01-02''), db_clock = [], refused = (\<lambda>k. None),
         failed = (\<lambda>k. False), public_url = (\<lambda>p. p), net = (\<lambda>u. Fails [])\<rparr>
        (VId 1) (VStr ''pending'') VUndef
        (empty_store\<lparr>tables := (\<lambda>t. [])(''milestones'' :=
           [[(''id'', VId 1), (''status'', VStr ''done''), (''completed_at'', VStr ''2026-01-01'')],
            [(''id'', VId 2), (''status'', VStr ''pending'')]])\<rparr>))) ''milestones'')
   = [VStr ''2026-01-01'', VNull]"
  using completed_at_append_only[of
        "\<lparr>clock = (\<lambda>k. ''2026-01-02''), db_clock = [], refused = (\<lambda>k. None),
         failed = (\<lambda>k. False), public_url = (\<lambda>p. p), net = (\<lambda>u. Fails [])\<rparr>"
        "VId 1" "VStr ''pending''"
        "empty_store\<lparr>tables := (\<lambda>t. [])(''milestones'' :=
           [[(''id'', VId 1), (''status'', VStr ''done''), (''completed_at'', VStr ''2026-01-01'')],
            [(''id'', VId 2), (''status'', VStr ''pending'')]])\<rparr>" VUndef]
  by (simp add: update_milestone_snd update_rows_snd_tables milestone_update_def col_spread
        defined_props_def col_def empty_store_def)


section \<open>Progress\<close>

lemma progress_23_40: "progress 23 40 = 57"
  by (simp add: progress_def js_divide_def js_times_100_def Math_round_def nearest_double_def
        Let_def bits_eval)

lemma progress_without_milestones: "progress n 0 = 0"
  by (simp add: progress_def)

lemma summary_progress:
  "summary_of s c =
     VObj [(''name'', col c ''name''), (''slug'', col c ''slug''), (''status'', col c ''status''),
       (''progress'', VNum (progress (done_count (milestones_of s c)) (length (milestones_of s c)))),
       (''milestones'', VStr (show_nat (done_count (milestones_of s c)) @ ''/''
          @ show_nat (length (milestones_of s c))))]"
  by (simp add: summary_of_def Let_def)

text \<open>
  C7. A company with forty milestones of which twenty-three are done: one hundred times
  the ratio is exactly 57.5, which rounds to 58; the summary reports 57, because the
  quotient \<open>23 / 40\<close> is rounded to a binary64 number before it is multiplied by 100,
  and the product, rounded again, lies just under 57.5.
\<close>

theorem progress_drift:
  "fst (get_portfolio_summary
      \<lparr>clock = (\<lambda>k. []), db_clock = [], refused = (\<lambda>k. None), failed = (\<lambda>k. False),
       public_url = (\<lambda>p. p), net = (\<lambda>u. Fails [])\<rparr>
      (empty_store\<lparr>tables := (\<lambda>t. [])
         (''companies'' := [[(''id'', VId 0), (''slug'', VStr ''acme''), (''name'', VStr ''Acme''),
                            (''status'', VStr ''active'')]],
          ''milestones'' := replicate 23 [(''company_id'', VId 0), (''status'', VStr ''done'')]
                          @ replicate 17 [(''company_id'', VId 0), (''status'', VStr ''pending'')])\<rparr>))
   = Inr (VArr [VObj [(''name'', VStr ''Acme''), (''slug'', VStr ''acme''), (''status'', VStr ''active''),
                      (''progress'', VNum 57), (''milestones'', VStr ''23/40'')]])
   \<and> spec_progress 23 40 = 58"
  by (simp add: get_portfolio_summary_def summary_progress milestones_of_def eq_filter_def col_def
        done_count_def select_cols_def get_prop_def progress_23_40 show_eval spec_progress_def
        empty_store_def)

section \<open>Document content\<close>

lemma get_document_content_found:
  assumes "refused e 0 = None" "eq_filter ''id'' document_id (tables s ''documents'') = [r]"
  shows "get_document_content e document_id s =
     (let doc = embed_company s r;
          file_type = get_prop doc ''file_type''
      in case (case file_type of
                 VUndef \<Rightarrow> Inr VUndef
               | VNull \<Rightarrow> Inr VUndef
               | VStr t \<Rightarrow> Inr (VStr (toLowerCase t))
               | v \<Rightarrow> Inl (no_method ''doc.file_type'' v ''toLowerCase'')) of
           Inl m \<Rightarrow> (Inl m, s)
         | Inr ext \<Rightarrow>
             if ext \<notin> set textFormats then
               (Inr (VObj [(''document'', VObj doc),
                           (''content'', VNull),
                           (''message'', VStr (''Cannot read content of .'' @ to_string ext
                              @ '' files directly. Use the URL to view: ''
                              @ to_string (get_prop doc ''file_url'')))]), s)
             else
               (Inr (fetch_content e doc),
                s\<lparr>requests := requests s @ [to_string (get_prop doc ''file_url'')]\<rparr>))"
  using assms by (simp add: get_document_content_def)

lemma VUndef_not_text: "VUndef \<notin> set textFormats"
  by (simp add: textFormats_def)

text \<open>
  C6. For a document that the store returns, with \<open>doc\<close> the row and its embedded
  company, \<open>url\<close> its \<open>file_url\<close> and \<open>ext\<close> its lowercased \<open>file_type\<close>:
  when \<open>ext\<close> is not one of md, txt, json, csv, html, xml, js, ts, py, sql (or the
  document has no \<open>file_type\<close>), the result is the document, \<open>content = null\<close> and a
  message that ends with the URL, and no request is issued; when it is one of them,
  exactly one request is issued, to the URL, and a successful response with text of more
  than 50,000 characters yields its first 50,000 characters followed by the truncation
  marker, with \<open>truncated = true\<close>, a shorter text yields the text itself with
  \<open>truncated = false\<close>.
\<close>

theorem document_content:
  assumes "refused e 0 = None"
    and "eq_filter ''id'' document_id (tables s ''documents'') = [r]"
  shows "(get_prop (embed_company s r) ''file_type'' = VStr t \<and>
            VStr (toLowerCase t) \<notin> set textFormats \<longrightarrow>
          get_document_content e document_id s =
            (Inr (VObj [(''document'', VObj (embed_company s r)),
                        (''content'', VNull),
                        (''message'', VStr (''Cannot read content of .'' @ toLowerCase t
                           @ '' files directly. Use the URL to view: ''
                           @ to_string (get_prop (embed_company s r) ''file_url'')))]), s))
       \<and> (get_prop (embed_company s r) ''file_type'' \<in> {VNull, VUndef} \<longrightarrow>
          get_document_content e document_id s =
            (Inr (VObj [(''document'', VObj (embed_company s r)),
                        (''content'', VNull),
                        (''message'', VStr (''Cannot read content of .undefined''
                           @ '' files directly. Use the URL to view: ''
                           @ to_string (get_prop (embed_company s r) ''file_url'')))]), s))
       \<and> (get_prop (embed_company s r) ''file_type'' = VStr t \<and>
            VStr (toLowerCase t) \<in> set textFormats \<longrightarrow>
          snd (get_document_content e document_id s) =
            s\<lparr>requests := requests s @ [to_string (get_prop (embed_company s r) ''file_url'')]\<rparr>
          \<and> (net e (to_string (get_prop (embed_company s r) ''file_url'')) = Responds d code text
               \<and> ok code \<longrightarrow>
               fst (get_document_content e document_id s) =
                 Inr (VObj [(''document'', VObj (embed_company s r)),
                            (''content'', VStr (if length text > 50000
                                                then take 50000 text @ truncation_marker
                                                else text)),
                            (''truncated'', VBool (length text > 50000))])))"
  unfolding get_document_content_found[OF assms]
  by (auto simp: Let_def VUndef_not_text fetch_content_def)


theorem document_content_witness:
  "get_document_content (still_env\<lparr>net := \<lambda>u. Responds 5 200 ''# Notes''\<rparr>) (VId 7)
     (empty_store\<lparr>tables := (\<lambda>t. [])(''documents'' :=
        [[(''id'', VId 7), (''file_type'', VStr ''exe''), (''file_url'', VStr ''https://f/a.exe'')],
         [(''id'', VId 8), (''file_type'', VStr ''MD''), (''file_url'', VStr ''https://f/b.md'')]])\<rparr>)
   = (Inr (VObj [(''document'', VObj [(''id'', VId 7), (''file_type'', VStr ''exe''),
                    (''file_url'', VStr ''https://f/a.exe''), (''companies'', VNull)]),
                 (''content'', VNull),
                 (''message'', VStr (''Cannot read content of .exe files directly. ''
                    @ ''Use the URL to view: https://f/a.exe''))]),
      empty_store\<lparr>tables := (\<lambda>t. [])(''documents'' :=
        [[(''id'', VId 7), (''file_type'', VStr ''exe''), (''file_url'', VStr ''https://f/a.exe'')],
         [(''id'', VId 8), (''file_type'', VStr ''MD''), (''file_url'', VStr ''https://f/b.md'')]])\<rparr>)
   \<and> fst (get_document_content (still_env\<lparr>net := \<lambda>u. Responds 5 200 ''# Notes''\<rparr>) (VId 8)
     (empty_store\<lparr>tables := (\<lambda>t. [])(''documents'' :=
        [[(''id'', VId 7), (''file_type'', VStr ''exe''), (''file_url'', VStr ''https://f/a.exe'')],
         [(''id'', VId 8), (''file_type'', VStr ''MD''), (''file_url'', VStr ''https://f/b.md'')]])\<rparr>))
   = Inr (VObj [(''document'', VObj [(''id'', VId 8), (''file_type'', VStr ''MD''),
                    (''file_url'', VStr ''https://f/b.md''), (''companies'', VNull)]),
                (''content'', VStr ''# Notes''),
                (''truncated'', VBool False)])"
proof -
  let ?e = "still_env\<lparr>net := \<lambda>u. Responds 5 200 ''# Notes''\<rparr>"
  let ?r1 = "[(''id'', VId 7), (''file_type'', VStr ''exe''), (''file_url'', VStr ''https://f/a.exe'')]"
  let ?r2 = "[(''id'', VId 8), (''file_type'', VStr ''MD''), (''file_url'', VStr ''https://f/b.md'')]"
  let ?s = "empty_store\<lparr>tables := (\<lambda>t. [])(''documents'' := [?r1, ?r2])\<rparr>"
  have e: "refused ?e 0 = None" by (simp add: still_env_def)
  have f1: "eq_filter ''id'' (VId 7) (tables ?s ''documents'') = [?r1]"
    and f2: "eq_filter ''id'' (VId 8) (tables ?s ''documents'') = [?r2]"
    by (simp_all add: eq_filter_def col_def empty_store_def)
  have emb: "embed_company ?s ?r1 = ?r1 @ [(''companies'', VNull)]"
            "embed_company ?s ?r2 = ?r2 @ [(''companies'', VNull)]"
    by (simp_all add: embed_company_def eq_filter_def col_def empty_store_def)
  have lo: "toLowerCase ''exe'' = ''exe''" "toLowerCase ''MD'' = ''md''"
    by (simp_all add: toLowerCase_def lower_char_def)
  have n: "net ?e u = Responds 5 200 ''# Notes''" for u
    by simp
  have "VStr (toLowerCase ''exe'') \<notin> set textFormats" "VStr (toLowerCase ''MD'') \<in> set textFormats"
    by (simp_all add: lo textFormats_def)
  moreover have "get_prop (embed_company ?s ?r1) ''file_type'' = VStr ''exe''"
    "get_prop (embed_company ?s ?r2) ''file_type'' = VStr ''MD''"
    "to_string (get_prop (embed_company ?s ?r1) ''file_url'') = ''https://f/a.exe''"
    by (simp_all add: emb get_prop_def)
  moreover have "ok 200" by (simp add: ok_def)
  ultimately show ?thesis
    using document_content[OF e f1, of "''exe''"]
      document_content[OF e f2, of "''MD''" 5 200 "''# Notes''"] n
    by (simp add: emb lo)
qed

section \<open>Health check\<close>

lemma get_prop_set_prop: "get_prop (set_prop k v r) k' = (if k' = k then v else get_prop r k')"
  by (simp add: get_prop_def set_prop_def update_conv')

lemma get_prop_Cons: "get_prop ((k, v) # r) k' = (if k' = k then v else get_prop r k')"
  by (simp add: get_prop_def)

lemma get_prop_Nil: "get_prop [] k = VUndef"
  by (simp add: get_prop_def)

lemmas get_prop_eval = get_prop_Cons get_prop_Nil

lemma probed_cols:
  "col (spread r (defined_props [(''status'', VStr st), (''last_checked'', VStr t),
      (''error_message'', em), (''updated_at'', VStr t')])) ''status'' = VStr st"
  "col (spread r (defined_props [(''status'', VStr st), (''last_checked'', VStr t),
      (''error_message'', em), (''updated_at'', VStr t')])) ''last_checked'' = VStr t"
  "em \<noteq> VUndef \<Longrightarrow> col (spread r (defined_props [(''status'', VStr st), (''last_checked'', VStr t),
      (''error_message'', em), (''updated_at'', VStr t')])) ''error_message'' = em"
  by (simp_all add: col_spread defined_props_def)

lemma requests_persist: "requests (persist e k c u s) = requests s"
  by (simp add: persist_def update_rows_def)

lemma tables_persist:
  "tables (persist e k c u s) ''deployment_components'' =
     map (\<lambda>r. if \<not> failed e (k div 2) \<and> col r ''id'' = col c ''id''
               then spread r (defined_props u) else r)
       (tables s ''deployment_components'')"
  by (simp add: persist_def update_rows_snd_tables)

lemma check_component_unconfigured:
  "\<not> truthy (col c ''url'') \<Longrightarrow>
   check_component e c (results, s, k) =
     (set_prop (to_string (col c ''component_type''))
        (VObj [(''status'', VStr ''not_configured''), (''checked'', VBool False)]) results, s, k)"
  by (simp add: check_component_def)

lemma check_component_down:
  assumes "truthy (col c ''url'')" "probe e c s = (Inl m, s1)"
  shows "check_component e c (results, s, k) =
     (set_prop (to_string (col c ''component_type''))
        (VObj [(''status'', VStr ''down''), (''error'', VStr m), (''checked'', VBool True)]) results,
      persist e k c
        [(''status'', VStr ''down''), (''last_checked'', VStr (clock e k)),
         (''error_message'', VStr m), (''updated_at'', VStr (clock e (k + 1)))] s1,
      k + 2)"
  using assms by (simp add: check_component_def)

lemma check_component_response:
  assumes "truthy (col c ''url'')" "probe e c s = (Inr (code, latency), s1)"
  shows "check_component e c (results, s, k) =
     (set_prop (to_string (col c ''component_type''))
        (VObj [(''status'', VStr (if ok code then (if latency > 5000 then ''degraded'' else ''healthy'')
                                 else ''degraded'')),
               (''latency'', VNum (int latency)), (''checked'', VBool True)]) results,
      persist e k c
        [(''status'', VStr (if ok code then (if latency > 5000 then ''degraded'' else ''healthy'')
                            else ''degraded'')),
         (''last_checked'', VStr (clock e k)),
         (''error_message'', if ok code then VNull else VStr (''HTTP '' @ show_nat code)),
         (''updated_at'', VStr (clock e (k + 1)))] s1,
      k + 2)"
  using assms by (simp add: check_component_def Let_def)

lemma probe_string_url:
  assumes "col c ''url'' = VStr u"
  shows "probe e c s =
     (fetch_within 10000 (net e (if col c ''component_type'' = VStr ''mcp_server''
                                 then strip_trailing_slash u @ ''/health'' else u)),
      s\<lparr>requests := requests s @ [if col c ''component_type'' = VStr ''mcp_server''
                                   then strip_trailing_slash u @ ''/health'' else u]\<rparr>)"
  using assms by (simp add: probe_def check_url_def)

lemma fst_probe: "fst (probe e c s) = fst (probe e c s')"
  by (simp add: probe_def split: sum.splits)

lemma requests_probe: "requests (snd (probe e c s)) = requests s @ probes c"
  if "truthy (col c ''url'')"
  using that by (simp add: probe_def probes_def split: sum.splits)

lemma check_component_entry:
  "\<exists>entry. \<forall>results s k. fst (check_component e c (results, s, k)) =
      set_prop (to_string (col c ''component_type'')) entry results"
proof (cases "truthy (col c ''url'')")
  case False
  then show ?thesis using check_component_unconfigured[of c e] by auto
next
  case True
  show ?thesis
  proof (cases "fst (probe e c empty_store)")
    case (Inl m)
    have "probe e c s = (Inl m, snd (probe e c s))" for s
      using Inl fst_probe[of e c s empty_store] by (cases "probe e c s") simp
    then have "fst (check_component e c (results, s, k)) =
        set_prop (to_string (col c ''component_type''))
          (VObj [(''status'', VStr ''down''), (''error'', VStr m), (''checked'', VBool True)])
          results" for results s k
      using check_component_down[OF True, of e s m "snd (probe e c s)" results k] by simp
    then show ?thesis by blast
  next
    case (Inr b)
    obtain code l where b: "b = (code, l)" by (cases b)
    have "probe e c s = (Inr (code, l), snd (probe e c s))" for s
      using Inr b fst_probe[of e c s empty_store] by (cases "probe e c s") simp
    then have "fst (check_component e c (results, s, k)) =
        set_prop (to_string (col c ''component_type''))
          (VObj [(''status'', VStr (if ok code then (if l > 5000 then ''degraded'' else ''healthy'')
                                   else ''degraded'')),
                 (''latency'', VNum (int l)), (''checked'', VBool True)])
          results" for results s k
      using check_component_response[OF True, of e s code l "snd (probe e c s)" results k] by simp
    then show ?thesis by blast
  qed
qed

lemma check_component_report:
  "fst (check_component e c (results, s, k)) =
     set_prop (to_string (col c ''component_type'')) (report e c) results"
proof -
  obtain entry where en: "\<And>results s k. fst (check_component e c (results, s, k)) =
      set_prop (to_string (col c ''component_type'')) entry results"
    using check_component_entry[of e c] by blast
  have "report e c = entry"
    unfolding report_def en by (simp add: get_prop_set_prop)
  then show ?thesis using en by simp
qed

lemma check_component_requests:
  "requests (fst (snd (check_component e c (results, s, k)))) = requests s @ probes c"
proof (cases "truthy (col c ''url'')")
  case False
  then show ?thesis by (simp add: check_component_unconfigured probes_def)
next
  case True
  show ?thesis
  proof (cases "probe e c s")
    case (Pair a s1)
    then have r: "requests s1 = requests s @ probes c" using requests_probe[OF True, of e s] by simp
    show ?thesis
    proof (cases a)
      case (Inl m)
      then show ?thesis using check_component_down[OF True, of e s m s1] Pair r
        by (simp add: requests_persist)
    next
      case (Inr b)
      obtain code l where "b = (code, l)" by (cases b)
      then show ?thesis using check_component_response[OF True, of e s code l s1] Pair r Inr
        by (simp add: requests_persist)
    qed
  qed
qed

lemma fold_check_component:
  "\<exists>s' k'. fold (check_component e) cs (results, s, k) =
      (fold (\<lambda>c. set_prop (to_string (col c ''component_type'')) (report e c)) cs results, s', k')
    \<and> requests s' = requests s @ concat (map probes cs)"
proof (induction cs arbitrary: results s k)
  case Nil
  show ?case by simp
next
  case (Cons c cs)
  obtain r1 s1 k1 where st: "check_component e c (results, s, k) = (r1, s1, k1)"
    by (cases "check_component e c (results, s, k)") auto
  have r1: "r1 = set_prop (to_string (col c ''component_type'')) (report e c) results"
    using check_component_report[of e c results s k] st by simp
  have q1: "requests s1 = requests s @ probes c"
    using check_component_requests[of e c results s k] st by simp
  from Cons.IH[of r1 s1 k1] show ?case using st r1 q1 by auto
qed

lemma keys_set_prop: "fst ` set (set_prop k v r) = insert k (fst ` set r)"
proof -
  have "set (map fst (AList.update k v r)) = insert k (set (map fst r))"
    by (auto simp: update_keys)
  then show ?thesis by (simp add: set_prop_def)
qed

lemma keys_fold_set_prop:
  "fst ` set (fold (\<lambda>c. set_prop (f c) (g c)) cs r) = fst ` set r \<union> f ` set cs"
  by (induction cs arbitrary: r) (simp_all add: keys_set_prop)

lemma get_prop_fold_other:
  "x \<notin> f ` set cs \<Longrightarrow> get_prop (fold (\<lambda>c. set_prop (f c) (g c)) cs r) x = get_prop r x"
  by (induction cs arbitrary: r) (auto simp: get_prop_set_prop)

lemma get_prop_fold_distinct:
  "distinct (map f cs) \<Longrightarrow> c \<in> set cs \<Longrightarrow>
   get_prop (fold (\<lambda>c. set_prop (f c) (g c)) cs r) (f c) = g c"
proof (induction cs arbitrary: r)
  case Nil
  then show ?case by simp
next
  case (Cons a cs)
  show ?case
  proof (cases "c = a")
    case True
    then show ?thesis using Cons.prems get_prop_fold_other[of "f a" f cs g]
      by (simp add: get_prop_set_prop)
  next
    case False
    then show ?thesis using Cons by simp
  qed
qed

text \<open>
  C4. When the store returns the components of the deployment, the health check ends
  with a result: the deployment's identifier beside a map that has an entry under the
  type of every component; every component is probed, in order, with the requests that
  checking it alone would issue, whatever became of the probes before it; and when the
  components have different types, the entry of each is the report that checking it alone
  yields.
\<close>

theorem health_check_isolated:
  assumes "refused e 0 = None"
    and "cs = eq_filter ''deployment_id'' deployment_id (tables s ''deployment_components'')"
  shows "\<exists>results.
      fst (check_deployment_health e deployment_id s) =
        Inr (VObj [(''deployment_id'', deployment_id), (''health_check'', VObj results)])
      \<and> fst ` set results = (\<lambda>c. to_string (col c ''component_type'')) ` set cs
      \<and> (distinct (map (\<lambda>c. to_string (col c ''component_type'')) cs) \<longrightarrow>
           (\<forall>c \<in> set cs. get_prop results (to_string (col c ''component_type'')) = report e c))
      \<and> requests (snd (check_deployment_health e deployment_id s))
          = requests s @ concat (map probes cs)"
proof -
  obtain s' k' where f: "fold (check_component e) cs ([], s, 0) =
      (fold (\<lambda>c. set_prop (to_string (col c ''component_type'')) (report e c)) cs [], s', k')"
    and q: "requests s' = requests s @ concat (map probes cs)"
    using fold_check_component[of e cs "[]" s 0] by blast
  let ?results = "fold (\<lambda>c. set_prop (to_string (col c ''component_type'')) (report e c)) cs []"
  have "check_deployment_health e deployment_id s =
      (Inr (VObj [(''deployment_id'', deployment_id), (''health_check'', VObj ?results)]), s')"
    using assms f by (simp add: check_deployment_health_def)
  moreover have "fst ` set ?results = (\<lambda>c. to_string (col c ''component_type'')) ` set cs"
    by (simp add: keys_fold_set_prop)
  moreover have "distinct (map (\<lambda>c. to_string (col c ''component_type'')) cs) \<longrightarrow>
           (\<forall>c \<in> set cs. get_prop ?results (to_string (col c ''component_type'')) = report e c)"
    using get_prop_fold_distinct[of "\<lambda>c. to_string (col c ''component_type'')" cs _ "report e" "[]"]
    by blast
  ultimately show ?thesis using q by auto
qed


theorem health_check_isolated_witness:
  "\<exists>results.
     fst (check_deployment_health
        (still_env\<lparr>net := \<lambda>u. if u = ''https://mcp.example/health''
                                then Responds 120 200 ''ok'' else Fails ''fetch failed''\<rparr>)
        (VId 3)
        (empty_store\<lparr>tables := (\<lambda>t. [])(''deployment_components'' :=
           [[(''id'', VId 4), (''deployment_id'', VId 3), (''component_type'', VStr ''frontend''),
             (''url'', VStr ''https://app.example'')],
            [(''id'', VId 5), (''deployment_id'', VId 3), (''component_type'', VStr ''mcp_server''),
             (''url'', VStr ''https://mcp.example/'')]])\<rparr>))
     = Inr (VObj [(''deployment_id'', VId 3), (''health_check'', VObj results)])
     \<and> get_prop results ''frontend''
         = VObj [(''status'', VStr ''down''), (''error'', VStr ''fetch failed''),
                 (''checked'', VBool True)]
     \<and> get_prop results ''mcp_server''
         = VObj [(''status'', VStr ''healthy''), (''latency'', VNum 120), (''checked'', VBool True)]"
proof -
  let ?e = "still_env\<lparr>net := \<lambda>u. if u = ''https://mcp.example/health''
                                then Responds 120 200 ''ok'' else Fails ''fetch failed''\<rparr>"
  let ?c1 = "[(''id'', VId 4), (''deployment_id'', VId 3), (''component_type'', VStr ''frontend''),
             (''url'', VStr ''https://app.example'')]"
  let ?c2 = "[(''id'', VId 5), (''deployment_id'', VId 3), (''component_type'', VStr ''mcp_server''),
             (''url'', VStr ''https://mcp.example/'')]"
  let ?s = "empty_store\<lparr>tables := (\<lambda>t. [])(''deployment_components'' := [?c1, ?c2])\<rparr>"
  have e: "refused ?e 0 = None" by (simp add: still_env_def)
  have cs: "[?c1, ?c2] = eq_filter ''deployment_id'' (VId 3) (tables ?s ''deployment_components'')"
    by (simp add: eq_filter_def col_def empty_store_def)
  have k: "to_string (col ?c1 ''component_type'') = ''frontend''"
    "to_string (col ?c2 ''component_type'') = ''mcp_server''"
    by (simp_all add: col_def)
  have r1: "report ?e ?c1 = VObj [(''status'', VStr ''down''), (''error'', VStr ''fetch failed''),
                 (''checked'', VBool True)]"
    by (simp add: report_def check_component_def probe_def check_url_def fetch_within_def col_def
          set_prop_def get_prop_eval still_env_def persist_def update_rows_def)
  have r2: "report ?e ?c2 = VObj [(''status'', VStr ''healthy''), (''latency'', VNum 120),
                 (''checked'', VBool True)]"
    by (simp add: report_def check_component_def probe_def check_url_def fetch_within_def col_def
          set_prop_def get_prop_eval still_env_def strip_trailing_slash_def ok_def persist_def
          update_rows_def Let_def)
  from health_check_isolated[OF e cs] obtain results where
    a: "fst (check_deployment_health ?e (VId 3) ?s) =
          Inr (VObj [(''deployment_id'', VId 3), (''health_check'', VObj results)])"
    and b: "distinct (map (\<lambda>c. to_string (col c ''component_type'')) [?c1, ?c2]) \<longrightarrow>
           (\<forall>c \<in> set [?c1, ?c2]. get_prop results (to_string (col c ''component_type'')) = report ?e c)"
    by blast
  have "get_prop results ''frontend'' = report ?e ?c1" "get_prop results ''mcp_server'' = report ?e ?c2"
    using b k by simp_all
  then show ?thesis using a r1 r2 by auto
qed

lemma probe_split: "probe e c s = (fst (probe e c empty_store), snd (probe e c s))"
  using fst_probe[of e c s empty_store] by (cases "probe e c s") simp

lemma tables_probe: "tables (snd (probe e c s)) t = tables s t"
  by (simp add: probe_def split: sum.splits)

lemma row_after_fun:
  "row_after e c k =
     (\<lambda>r. if truthy (col c ''url'') \<and> \<not> failed e (k div 2) \<and> col r ''id'' = col c ''id''
          then spread r (defined_props (health_update e c k)) else r)"
  by (rule ext) (simp add: row_after_def)

lemma check_component_store:
  "tables (fst (snd (check_component e c (results, s, k)))) ''deployment_components''
     = map (row_after e c k) (tables s ''deployment_components'')"
proof (cases "truthy (col c ''url'')")
  case False
  then show ?thesis by (simp add: check_component_unconfigured row_after_fun)
next
  case True
  show ?thesis
  proof (cases "fst (probe e c empty_store)")
    case (Inl m)
    then have "probe e c s = (Inl m, snd (probe e c s))" using probe_split[of e c s] by simp
    from check_component_down[OF True this, of results k] show ?thesis
      using True Inl by (simp add: tables_persist tables_probe row_after_fun health_update_def)
  next
    case (Inr b)
    obtain code l where b: "b = (code, l)" by (cases b)
    then have "probe e c s = (Inr (code, l), snd (probe e c s))"
      using Inr probe_split[of e c s] by simp
    from check_component_response[OF True this, of results k] show ?thesis
      using True Inr b by (simp add: tables_persist tables_probe row_after_fun health_update_def)
  qed
qed

lemma check_component_count:
  "snd (snd (check_component e c (results, s, k))) = (if truthy (col c ''url'') then k + 2 else k)"
proof (cases "truthy (col c ''url'')")
  case False
  then show ?thesis by (simp add: check_component_unconfigured)
next
  case True
  show ?thesis
  proof (cases "fst (probe e c empty_store)")
    case (Inl m)
    then have "probe e c s = (Inl m, snd (probe e c s))" using probe_split[of e c s] by simp
    from check_component_down[OF True this, of results k] show ?thesis using True by simp
  next
    case (Inr b)
    obtain code l where b: "b = (code, l)" by (cases b)
    then have "probe e c s = (Inr (code, l), snd (probe e c s))"
      using Inr probe_split[of e c s] by simp
    from check_component_response[OF True this, of results k] show ?thesis using True by simp
  qed
qed

lemma fold_check_component_store:
  "tables (fst (snd (fold (check_component e) cs (results, s, k)))) ''deployment_components''
     = map (rows_after e cs k) (tables s ''deployment_components'')"
proof (induction cs arbitrary: results s k)
  case Nil
  show ?case by simp
next
  case (Cons c cs)
  obtain r1 s1 k1 where st: "check_component e c (results, s, k) = (r1, s1, k1)"
    by (cases "check_component e c (results, s, k)") auto
  have t1: "tables s1 ''deployment_components''
      = map (row_after e c k) (tables s ''deployment_components'')"
    using check_component_store[of e c results s k] st by simp
  have k1: "k1 = (if truthy (col c ''url'') then k + 2 else k)"
    using check_component_count[of e c results s k] st by simp
  from Cons.IH[of r1 s1 k1] show ?case using st t1 k1 by simp
qed

lemma health_update_keys: "''id'' \<notin> fst ` set (health_update e c k)"
  by (auto simp: health_update_def split: sum.splits prod.splits)

lemma row_after_id: "col (row_after e c k r) ''id'' = col r ''id''"
  by (simp add: row_after_def col_update_other health_update_keys)

lemma rows_after_id: "col (rows_after e cs k r) ''id'' = col r ''id''"
  by (induction cs arbitrary: k r) (simp_all add: row_after_id)

lemma rows_after_other:
  "col r ''id'' \<notin> (\<lambda>c. col c ''id'') ` set cs \<Longrightarrow> rows_after e cs k r = r"
  by (induction cs arbitrary: k) (simp_all add: row_after_def)

lemma turn_0: "turn cs 0 = 0"
  by (simp add: turn_def)

lemma turn_Suc:
  "turn (c # cs) (Suc i) = (if truthy (col c ''url'') then Suc (turn cs i) else turn cs i)"
  by (simp add: turn_def)

lemma rows_after_nth:
  assumes "distinct (map (\<lambda>c. col c ''id'') cs)" "i < length cs"
    and "col r ''id'' = col (cs ! i) ''id''"
  shows "rows_after e cs k r = row_after e (cs ! i) (k + 2 * turn cs i) r"
  using assms
proof (induction cs arbitrary: i k)
  case Nil
  then show ?case by simp
next
  case (Cons a cs)
  from Cons.prems(1) have fresh: "col a ''id'' \<notin> (\<lambda>c. col c ''id'') ` set cs"
    and dist: "distinct (map (\<lambda>c. col c ''id'') cs)" by simp_all
  show ?case
  proof (cases i)
    case 0
    then have "col (row_after e a k r) ''id'' \<notin> (\<lambda>c. col c ''id'') ` set cs"
      using fresh Cons.prems(3) by (simp add: row_after_id)
    then show ?thesis using 0 by (simp add: rows_after_other turn_0)
  next
    case (Suc j)
    then have j: "j < length cs" and rj: "col r ''id'' = col (cs ! j) ''id''"
      using Cons.prems(2,3) by simp_all
    then have "col r ''id'' \<in> (\<lambda>c. col c ''id'') ` set cs" by auto
    then have "col r ''id'' \<noteq> col a ''id''" using fresh by auto
    then have "row_after e a k r = r" by (simp add: row_after_def)
    then show ?thesis
      using Cons.IH[OF dist j rj, of "if truthy (col a ''url'') then k + 2 else k"] Suc
      by (simp add: turn_Suc)
  qed
qed

lemma filter_distinct_member:
  "distinct (map f xs) \<Longrightarrow> x \<in> set xs \<Longrightarrow> filter (\<lambda>y. f y = f x) xs = [x]"
proof (induction xs)
  case Nil
  then show ?case by simp
next
  case (Cons a xs)
  show ?case
  proof (cases "a = x")
    case True
    then have "\<forall>y \<in> set xs. f y \<noteq> f x" using Cons.prems(1) by (auto simp: image_iff)
    then have "filter (\<lambda>y. f y = f x) xs = []" by (simp add: filter_empty_conv)
    then show ?thesis using True by simp
  next
    case False
    then have "x \<in> set xs" using Cons.prems(2) by simp
    moreover from this have "f a \<noteq> f x" using Cons.prems(1) by auto
    ultimately show ?thesis using Cons by simp
  qed
qed

lemma stored_after_health_check:
  assumes "refused e 0 = None"
    and "cs = eq_filter ''deployment_id'' deployment_id (tables s ''deployment_components'')"
    and "distinct (map (\<lambda>r. col r ''id'') (tables s ''deployment_components''))"
    and "i < length cs"
  shows "stored (check_deployment_health e deployment_id s) (cs ! i)
         = [row_after e (cs ! i) (2 * turn cs i) (cs ! i)]"
proof -
  let ?c = "cs ! i"
  let ?rows = "tables s ''deployment_components''"
  have "snd (check_deployment_health e deployment_id s)
      = fst (snd (fold (check_component e) cs ([], s, 0)))"
    using assms(1,2) by (simp add: check_deployment_health_def split_beta Let_def)
  then have t: "tables (snd (check_deployment_health e deployment_id s)) ''deployment_components''
      = map (rows_after e cs 0) ?rows"
    by (simp add: fold_check_component_store)
  have "?c \<in> set cs" using assms(4) by simp
  then have m: "?c \<in> set ?rows" using assms(2) by (simp add: eq_filter_def)
  have d: "distinct (map (\<lambda>c. col c ''id'') cs)"
    using assms(2,3) by (simp add: eq_filter_def distinct_map_filter)
  have "filter (\<lambda>r. col (rows_after e cs 0 r) ''id'' = col ?c ''id'') ?rows = [?c]"
    using filter_distinct_member[OF assms(3) m] by (simp add: rows_after_id)
  then have "stored (check_deployment_health e deployment_id s) ?c = [rows_after e cs 0 ?c]"
    by (simp add: stored_def eq_filter_def t filter_map comp_def)
  then show ?thesis using rows_after_nth[OF d assms(4), of ?c e 0] by simp
qed

lemma entry_after_health_check:
  assumes "refused e 0 = None"
    and "cs = eq_filter ''deployment_id'' deployment_id (tables s ''deployment_components'')"
    and "distinct (map (\<lambda>c. to_string (col c ''component_type'')) cs)"
    and "c \<in> set cs"
  shows "health_entry (check_deployment_health e deployment_id s) c = report e c"
proof -
  obtain s' k' where f: "fold (check_component e) cs ([], s, 0) =
      (fold (\<lambda>c. set_prop (to_string (col c ''component_type'')) (report e c)) cs [], s', k')"
    using fold_check_component[of e cs "[]" s 0] by blast
  then have "fst (check_deployment_health e deployment_id s) =
      Inr (VObj [(''deployment_id'', deployment_id), (''health_check'',
        VObj (fold (\<lambda>c. set_prop (to_string (col c ''component_type'')) (report e c)) cs []))])"
    using assms(1,2) by (simp add: check_deployment_health_def)
  then show ?thesis
    using get_prop_fold_distinct[OF assms(3,4), of "report e" "[]"]
    by (simp add: health_entry_def get_prop_eval)
qed

lemma requests_after_health_check:
  assumes "refused e 0 = None"
    and "cs = eq_filter ''deployment_id'' deployment_id (tables s ''deployment_components'')"
  shows "requests (snd (check_deployment_health e deployment_id s))
         = requests s @ concat (map probes cs)"
proof -
  obtain s' k' where f: "fold (check_component e) cs ([], s, 0) =
      (fold (\<lambda>c. set_prop (to_string (col c ''component_type'')) (report e c)) cs [], s', k')"
    and q: "requests s' = requests s @ concat (map probes cs)"
    using fold_check_component[of e cs "[]" s 0] by blast
  then show ?thesis using assms by (simp add: check_deployment_health_def)
qed

lemma report_unconfigured:
  "\<not> truthy (col c ''url'') \<Longrightarrow>
   report e c = VObj [(''status'', VStr ''not_configured''), (''checked'', VBool False)]"
  by (simp add: report_def check_component_unconfigured get_prop_set_prop)

lemma report_down:
  assumes "truthy (col c ''url'')" "fst (probe e c empty_store) = Inl m"
  shows "report e c
         = VObj [(''status'', VStr ''down''), (''error'', VStr m), (''checked'', VBool True)]"
proof -
  have "probe e c empty_store = (Inl m, snd (probe e c empty_store))"
    using assms(2) by (cases "probe e c empty_store") simp
  from check_component_down[OF assms(1) this, of "[]" 0] show ?thesis
    by (simp add: report_def get_prop_set_prop)
qed

lemma report_response:
  assumes "truthy (col c ''url'')" "fst (probe e c empty_store) = Inr (code, latency)"
  shows "report e c
         = VObj [(''status'', VStr (if ok code then (if latency > 5000 then ''degraded''
                                                     else ''healthy'') else ''degraded'')),
                 (''latency'', VNum (int latency)), (''checked'', VBool True)]"
proof -
  have "probe e c empty_store = (Inr (code, latency), snd (probe e c empty_store))"
    using assms(2) by (cases "probe e c empty_store") simp
  from check_component_response[OF assms(1) this, of "[]" 0] show ?thesis
    by (simp add: report_def get_prop_set_prop)
qed

lemma persisted_down:
  assumes "stored out c = [row_after e c (2 * j) c]" "truthy (col c ''url'')" "\<not> failed e j"
    and "fst (probe e c empty_store) = Inl m"
  shows "persisted ''down'' (VStr m) (clock e (2 * j)) out c"
  using assms by (simp add: persisted_def row_after_def health_update_def probed_cols)

lemma persisted_response:
  assumes "stored out c = [row_after e c (2 * j) c]" "truthy (col c ''url'')" "\<not> failed e j"
    and "fst (probe e c empty_store) = Inr (code, latency)"
  shows "persisted (if ok code then (if latency > 5000 then ''degraded'' else ''healthy'')
                    else ''degraded'')
           (if ok code then VNull else VStr (''HTTP '' @ show_nat code))
           (clock e (2 * j)) out c"
  using assms by (simp add: persisted_def row_after_def health_update_def probed_cols)

lemma not_persisted:
  assumes "stored out c = [row_after e c (2 * j) c]" "\<not> truthy (col c ''url'') \<or> failed e j"
  shows "stored out c = [c]"
  using assms by (auto simp: row_after_def)


text \<open>
  C3, as amended. A call of \<open>check_deployment_health\<close> that gets the components \<open>cs\<close>
  of the deployment from the store, their rows having different identifiers and the
  components different types, issues for every component the requests of \<open>probes\<close>, in
  the order of the components. For the \<open>i\<close>-th component \<open>c\<close>: without a URL it is
  reported as \<open>not_configured\<close>, no request is issued for it and its row stays as it
  is. With the URL \<open>u\<close>, one request is issued, to \<open>u\<close> without a trailing slash followed
  by \<open>/health\<close> for an \<open>mcp_server\<close> and to \<open>u\<close> itself otherwise, and the status
  reported is: \<open>down\<close>, with the message of the failure, when the request fails or the
  server has not answered within 10000 ms; \<open>degraded\<close> when the code is outside
  200..299; \<open>degraded\<close> when the code is inside and the answer took more than 5000 ms;
  \<open>healthy\<close> otherwise. When the store does not fail the update of the component, its
  row then holds this status, the time of the check, and as error message the message
  of the failure, \<open>HTTP\<close> and the code, or \<open>null\<close> in the last two cases; when the store
  fails the update, the row stays as it is.
\<close>

theorem health_check_classification:
  assumes "refused e 0 = None"
    and "cs = eq_filter ''deployment_id'' deployment_id (tables s ''deployment_components'')"
    and "distinct (map (\<lambda>r. col r ''id'') (tables s ''deployment_components''))"
    and "distinct (map (\<lambda>c. to_string (col c ''component_type'')) cs)"
    and "i < length cs" and "c = cs ! i" and "j = turn cs i"
    and "out = check_deployment_health e deployment_id s"
  shows "requests (snd out) = requests s @ concat (map probes cs)
   \<and> (\<not> truthy (col c ''url'') \<longrightarrow>
        probes c = []
        \<and> health_entry out c
            = VObj [(''status'', VStr ''not_configured''), (''checked'', VBool False)]
        \<and> stored out c = [c])
   \<and> (col c ''url'' = VStr u \<and> u \<noteq> [] \<and>
       target = (if col c ''component_type'' = VStr ''mcp_server''
                 then strip_trailing_slash u @ ''/health'' else u) \<longrightarrow>
        probes c = [target]
        \<and> (failed e j \<longrightarrow> stored out c = [c])
        \<and> (net e target = Fails m \<longrightarrow>
             health_entry out c
               = VObj [(''status'', VStr ''down''), (''error'', VStr m), (''checked'', VBool True)]
             \<and> (\<not> failed e j \<longrightarrow> persisted ''down'' (VStr m) (clock e (2 * j)) out c))
        \<and> (net e target = Responds d code payload \<and> 10000 \<le> d \<longrightarrow>
             health_entry out c
               = VObj [(''status'', VStr ''down''), (''error'', VStr abort_message),
                       (''checked'', VBool True)]
             \<and> (\<not> failed e j \<longrightarrow>
                  persisted ''down'' (VStr abort_message) (clock e (2 * j)) out c))
        \<and> (net e target = Responds d code payload \<and> d < 10000
              \<and> \<not> (200 \<le> code \<and> code \<le> 299) \<longrightarrow>
             health_entry out c
               = VObj [(''status'', VStr ''degraded''), (''latency'', VNum (int d)),
                       (''checked'', VBool True)]
             \<and> (\<not> failed e j \<longrightarrow>
                  persisted ''degraded'' (VStr (''HTTP '' @ show_nat code)) (clock e (2 * j))
                    out c))
        \<and> (net e target = Responds d code payload \<and> d < 10000 \<and> 200 \<le> code \<and> code \<le> 299
              \<and> 5000 < d \<longrightarrow>
             health_entry out c
               = VObj [(''status'', VStr ''degraded''), (''latency'', VNum (int d)),
                       (''checked'', VBool True)]
             \<and> (\<not> failed e j \<longrightarrow> persisted ''degraded'' VNull (clock e (2 * j)) out c))
        \<and> (net e target = Responds d code payload \<and> 200 \<le> code \<and> code \<le> 299 \<and> d \<le> 5000 \<longrightarrow>
             health_entry out c
               = VObj [(''status'', VStr ''healthy''), (''latency'', VNum (int d)),
                       (''checked'', VBool True)]
             \<and> (\<not> failed e j \<longrightarrow> persisted ''healthy'' VNull (clock e (2 * j)) out c)))"
proof (intro conjI impI)
  have cm: "c \<in> set cs" using assms(5,6) by simp
  have entry: "health_entry out c = report e c"
    unfolding assms(8) by (rule entry_after_health_check[OF assms(1,2,4) cm])
  have row: "stored out c = [row_after e c (2 * j) c]"
    unfolding assms(6,7,8) by (rule stored_after_health_check[OF assms(1,2,3,5)])
  show "requests (snd out) = requests s @ concat (map probes cs)"
    unfolding assms(8) by (rule requests_after_health_check[OF assms(1,2)])
  {
    assume n: "\<not> truthy (col c ''url'')"
    then show "probes c = []" by (simp add: probes_def)
    from n show "health_entry out c
        = VObj [(''status'', VStr ''not_configured''), (''checked'', VBool False)]"
      by (simp add: entry report_unconfigured)
    from n show "stored out c = [c]" using not_persisted[OF row] by simp
  }
  {
    assume a: "col c ''url'' = VStr u \<and> u \<noteq> [] \<and>
       target = (if col c ''component_type'' = VStr ''mcp_server''
                 then strip_trailing_slash u @ ''/health'' else u)"
    then have t: "truthy (col c ''url'')" by simp
    have p: "fst (probe e c empty_store) = fetch_within 10000 (net e target)"
      using a probe_string_url[of c u e empty_store] by simp
    from a show "probes c = [target]" by (simp add: probes_def check_url_def)
    {
      assume "failed e j"
      then show "stored out c = [c]" using not_persisted[OF row] by simp
    }
    {
      assume "net e target = Fails m"
      then have r: "fst (probe e c empty_store) = Inl m" using p by (simp add: fetch_within_def)
      show "health_entry out c
          = VObj [(''status'', VStr ''down''), (''error'', VStr m), (''checked'', VBool True)]"
        by (simp add: entry report_down[OF t r])
      {
        assume "\<not> failed e j"
        from persisted_down[OF row t this r]
        show "persisted ''down'' (VStr m) (clock e (2 * j)) out c" .
      }
    }
    {
      assume "net e target = Responds d code payload \<and> 10000 \<le> d"
      then have r: "fst (probe e c empty_store) = Inl abort_message"
        using p by (simp add: fetch_within_def)
      show "health_entry out c
          = VObj [(''status'', VStr ''down''), (''error'', VStr abort_message),
                  (''checked'', VBool True)]"
        by (simp add: entry report_down[OF t r])
      {
        assume "\<not> failed e j"
        from persisted_down[OF row t this r]
        show "persisted ''down'' (VStr abort_message) (clock e (2 * j)) out c" .
      }
    }
    {
      assume h: "net e target = Responds d code payload \<and> d < 10000
              \<and> \<not> (200 \<le> code \<and> code \<le> 299)"
      then have r: "fst (probe e c empty_store) = Inr (code, d)"
        using p by (simp add: fetch_within_def)
      from h have o: "\<not> ok code" by (simp add: ok_def)
      show "health_entry out c
          = VObj [(''status'', VStr ''degraded''), (''latency'', VNum (int d)),
                  (''checked'', VBool True)]"
        using o by (simp add: entry report_response[OF t r])
      {
        assume "\<not> failed e j"
        from persisted_response[OF row t this r] o
        show "persisted ''degraded'' (VStr (''HTTP '' @ show_nat code)) (clock e (2 * j)) out c"
          by simp
      }
    }
    {
      assume h: "net e target = Responds d code payload \<and> d < 10000 \<and> 200 \<le> code \<and> code \<le> 299
              \<and> 5000 < d"
      then have r: "fst (probe e c empty_store) = Inr (code, d)"
        using p by (simp add: fetch_within_def)
      from h have o: "ok code" "5000 < d" by (simp_all add: ok_def)
      show "health_entry out c
          = VObj [(''status'', VStr ''degraded''), (''latency'', VNum (int d)),
                  (''checked'', VBool True)]"
        using o by (simp add: entry report_response[OF t r])
      {
        assume "\<not> failed e j"
        from persisted_response[OF row t this r] o
        show "persisted ''degraded'' VNull (clock e (2 * j)) out c" by simp
      }
    }
    {
      assume h: "net e target = Responds d code payload \<and> 200 \<le> code \<and> code \<le> 299 \<and> d \<le> 5000"
      then have r: "fst (probe e c empty_store) = Inr (code, d)"
        using p by (simp add: fetch_within_def)
      from h have o: "ok code" "\<not> 5000 < d" by (simp_all add: ok_def)
      show "health_entry out c
          = VObj [(''status'', VStr ''healthy''), (''latency'', VNum (int d)),
                  (''checked'', VBool True)]"
        using o by (simp add: entry report_response[OF t r])
      {
        assume "\<not> failed e j"
        from persisted_response[OF row t this r] o
        show "persisted ''healthy'' VNull (clock e (2 * j)) out c" by simp
      }
    }
  }
qed


theorem health_check_classification_witness:
  "health_entry
     (check_deployment_health
        (still_env\<lparr>net := \<lambda>u. if u = ''https://app.example'' then Responds 120 200 ''ok''
                              else if u = ''https://mcp.example/health'' then Responds 200 503 []
                              else Fails ''fetch failed''\<rparr>)
        (VId 3)
        (empty_store\<lparr>tables := (\<lambda>t. [])(''deployment_components'' :=
           [[(''id'', VId 4), (''deployment_id'', VId 3), (''component_type'', VStr ''frontend''),
             (''url'', VStr ''https://app.example''), (''status'', VStr ''unknown'')],
            [(''id'', VId 5), (''deployment_id'', VId 3), (''component_type'', VStr ''mcp_server''),
             (''url'', VStr ''https://mcp.example/''), (''status'', VStr ''unknown'')],
            [(''id'', VId 6), (''deployment_id'', VId 3), (''component_type'', VStr ''database''),
             (''url'', VNull), (''status'', VStr ''not_configured'')]])\<rparr>))
     [(''id'', VId 5), (''deployment_id'', VId 3), (''component_type'', VStr ''mcp_server''),
      (''url'', VStr ''https://mcp.example/''), (''status'', VStr ''unknown'')]
   = VObj [(''status'', VStr ''degraded''), (''latency'', VNum 200), (''checked'', VBool True)]
   \<and> persisted ''degraded'' (VStr ''HTTP 503'') ''2026-01-02T00:00:00.000Z''
     (check_deployment_health
        (still_env\<lparr>net := \<lambda>u. if u = ''https://app.example'' then Responds 120 200 ''ok''
                              else if u = ''https://mcp.example/health'' then Responds 200 503 []
                              else Fails ''fetch failed''\<rparr>)
        (VId 3)
        (empty_store\<lparr>tables := (\<lambda>t. [])(''deployment_components'' :=
           [[(''id'', VId 4), (''deployment_id'', VId 3), (''component_type'', VStr ''frontend''),
             (''url'', VStr ''https://app.example''), (''status'', VStr ''unknown'')],
            [(''id'', VId 5), (''deployment_id'', VId 3), (''component_type'', VStr ''mcp_server''),
             (''url'', VStr ''https://mcp.example/''), (''status'', VStr ''unknown'')],
            [(''id'', VId 6), (''deployment_id'', VId 3), (''component_type'', VStr ''database''),
             (''url'', VNull), (''status'', VStr ''not_configured'')]])\<rparr>))
     [(''id'', VId 5), (''deployment_id'', VId 3), (''component_type'', VStr ''mcp_server''),
      (''url'', VStr ''https://mcp.example/''), (''status'', VStr ''unknown'')]
   \<and> requests (snd
     (check_deployment_health
        (still_env\<lparr>net := \<lambda>u. if u = ''https://app.example'' then Responds 120 200 ''ok''
                              else if u = ''https://mcp.example/health'' then Responds 200 503 []
                              else Fails ''fetch failed''\<rparr>)
        (VId 3)
        (empty_store\<lparr>tables := (\<lambda>t. [])(''deployment_components'' :=
           [[(''id'', VId 4), (''deployment_id'', VId 3), (''component_type'', VStr ''frontend''),
             (''url'', VStr ''https://app.example''), (''status'', VStr ''unknown'')],
            [(''id'', VId 5), (''deployment_id'', VId 3), (''component_type'', VStr ''mcp_server''),
             (''url'', VStr ''https://mcp.example/''), (''status'', VStr ''unknown'')],
            [(''id'', VId 6), (''deployment_id'', VId 3), (''component_type'', VStr ''database''),
             (''url'', VNull), (''status'', VStr ''not_configured'')]])\<rparr>)))
   = [''https://app.example'', ''https://mcp.example/health'']"
proof -
  let ?e = "still_env\<lparr>net := \<lambda>u. if u = ''https://app.example'' then Responds 120 200 ''ok''
                              else if u = ''https://mcp.example/health'' then Responds 200 503 []
                              else Fails ''fetch failed''\<rparr>"
  let ?c1 = "[(''id'', VId 4), (''deployment_id'', VId 3), (''component_type'', VStr ''frontend''),
             (''url'', VStr ''https://app.example''), (''status'', VStr ''unknown'')]"
  let ?c2 = "[(''id'', VId 5), (''deployment_id'', VId 3), (''component_type'', VStr ''mcp_server''),
             (''url'', VStr ''https://mcp.example/''), (''status'', VStr ''unknown'')]"
  let ?c3 = "[(''id'', VId 6), (''deployment_id'', VId 3), (''component_type'', VStr ''database''),
             (''url'', VNull), (''status'', VStr ''not_configured'')]"
  let ?s = "empty_store\<lparr>tables := (\<lambda>t. [])(''deployment_components'' := [?c1, ?c2, ?c3])\<rparr>"
  have a1: "refused ?e 0 = None" by (simp add: still_env_def)
  have a2: "[?c1, ?c2, ?c3]
      = eq_filter ''deployment_id'' (VId 3) (tables ?s ''deployment_components'')"
    by (simp add: eq_filter_def col_def)
  have a3: "distinct (map (\<lambda>r. col r ''id'') (tables ?s ''deployment_components''))"
    by (simp add: col_def)
  have a4: "distinct (map (\<lambda>c. to_string (col c ''component_type'')) [?c1, ?c2, ?c3])"
    by (simp add: col_def)
  have a5: "1 < length [?c1, ?c2, ?c3]" by simp
  have a6: "?c2 = [?c1, ?c2, ?c3] ! 1" by simp
  have a7: "1 = turn [?c1, ?c2, ?c3] 1" by (simp add: turn_def col_def)
  have f: "\<not> failed ?e 1" "clock ?e 2 = ''2026-01-02T00:00:00.000Z''"
    "net ?e ''https://mcp.example/health'' = Responds 200 503 []"
    by (simp_all add: still_env_def)
  have u: "col ?c2 ''url'' = VStr ''https://mcp.example/''"
    "col ?c2 ''component_type'' = VStr ''mcp_server''"
    by (simp_all add: col_def)
  have p: "concat (map probes [?c1, ?c2, ?c3])
      = [''https://app.example'', ''https://mcp.example/health'']"
    by (simp add: probes_def check_url_def col_def strip_trailing_slash_def)
  from health_check_classification[OF a1 a2 a3 a4 a5 a6 a7 refl,
      where u = "''https://mcp.example/''" and target = "''https://mcp.example/health''"
        and d = 200 and code = 503 and payload = "[]"]
  show ?thesis
    using f u p by (simp add: strip_trailing_slash_def show_eval empty_store_def)
qed

text \<open>
  C3, as stated, fails when the store fails the update of a component: the status is
  reported all the same, and the row stays as it was, here with the status \<open>unknown\<close>
  and without the time of a check.
\<close>

theorem update_failed_counterexample:
  "health_entry
     (check_deployment_health
        (still_env\<lparr>net := \<lambda>u. Responds 120 200 ''ok'', failed := \<lambda>k. True\<rparr>)
        (VId 3)
        (empty_store\<lparr>tables := (\<lambda>t. [])(''deployment_components'' :=
           [[(''id'', VId 4), (''deployment_id'', VId 3), (''component_type'', VStr ''frontend''),
             (''url'', VStr ''https://app.example''), (''status'', VStr ''unknown'')]])\<rparr>))
     [(''id'', VId 4), (''deployment_id'', VId 3), (''component_type'', VStr ''frontend''),
      (''url'', VStr ''https://app.example''), (''status'', VStr ''unknown'')]
   = VObj [(''status'', VStr ''healthy''), (''latency'', VNum 120), (''checked'', VBool True)]
   \<and> tables (snd
     (check_deployment_health
        (still_env\<lparr>net := \<lambda>u. Responds 120 200 ''ok'', failed := \<lambda>k. True\<rparr>)
        (VId 3)
        (empty_store\<lparr>tables := (\<lambda>t. [])(''deployment_components'' :=
           [[(''id'', VId 4), (''deployment_id'', VId 3), (''component_type'', VStr ''frontend''),
             (''url'', VStr ''https://app.example''), (''status'', VStr ''unknown'')]])\<rparr>)))
       ''deployment_components''
   = [[(''id'', VId 4), (''deployment_id'', VId 3), (''component_type'', VStr ''frontend''),
       (''url'', VStr ''https://app.example''), (''status'', VStr ''unknown'')]]"
  by (simp add: health_entry_def check_deployment_health_def eq_filter_def col_def
        check_component_def probe_def check_url_def fetch_within_def persist_def ok_def
        set_prop_def get_prop_eval still_env_def empty_store_def Let_def)

section \<open>The agent loop\<close>

lemma error_entry_content:
  "error_entry call_id m =
     VObj [(''type'', VStr ''tool_result''), (''tool_use_id'', call_id),
           (''content'', VStr (''{'' @ quote ''error'' @ '':'' @ quote m @ ''}'')),
           (''is_error'', VBool True)]"
  by (simp add: error_entry_def JSON_stringify_def)


lemma run_tool_success:
  "member H (to_string (get_prop block ''name'')) = Some (Fn h) \<Longrightarrow>
   h (get_prop block ''input'') w = (Inr result, w') \<Longrightarrow>
   run_tool H block w = (result_entry (get_prop block ''id'') result, w')"
  by (simp add: run_tool_def)

lemma run_tool_no_function:
  "member H (to_string (get_prop block ''name'')) = None
     \<or> member H (to_string (get_prop block ''name'')) = Some Not_fn \<Longrightarrow>
   run_tool H block w = (error_entry (get_prop block ''id'') not_a_function, w)"
  by (auto simp: run_tool_def)


lemma run_blocks_entries:
  assumes "VUndef \<notin> set blocks" "VNull \<notin> set blocks"
  shows "\<exists>entries w'. run_blocks H blocks w = (Inr entries, w')
     \<and> list_all2 (\<lambda>b entry. \<exists>w0. entry = fst (run_tool H (own_props b) w0))
          (filter (\<lambda>b. get_prop (own_props b) ''type'' = VStr ''tool_use'') blocks) entries"
  using assms
proof (induction blocks arbitrary: w)
  case Nil
  then show ?case by simp
next
  case (Cons b bs)
  then have nn: "b \<noteq> VUndef" "b \<noteq> VNull" and rest: "VUndef \<notin> set bs" "VNull \<notin> set bs"
    by auto
  show ?case
  proof (cases "get_prop (own_props b) ''type'' = VStr ''tool_use''")
    case False
    then show ?thesis using Cons.IH[OF rest, of w] nn by simp
  next
    case True
    obtain entry w1 where rt: "run_tool H (own_props b) w = (entry, w1)"
      by (cases "run_tool H (own_props b) w")
    obtain entries w2 where ih: "run_blocks H bs w1 = (Inr entries, w2)"
      and all: "list_all2 (\<lambda>b entry. \<exists>w0. entry = fst (run_tool H (own_props b) w0))
          (filter (\<lambda>b. get_prop (own_props b) ''type'' = VStr ''tool_use'') bs) entries"
      using Cons.IH[OF rest, of w1] by blast
    have "run_blocks H (b # bs) w = (Inr (entry # entries), w2)"
      using True nn rt ih by simp
    moreover have "\<exists>w0. entry = fst (run_tool H (own_props b) w0)"
      using rt by (metis fst_conv)
    ultimately show ?thesis using True all by auto
  qed
qed

lemma chat_round_batch:
  assumes "get_prop response ''content'' = VArr blocks"
    and "run_blocks H blocks w = (Inr entries, w')"
  shows "chat_round H api messages response w =
     (case api (messages @ [VObj [(''role'', VStr ''assistant''), (''content'', VArr blocks)],
                            VObj [(''role'', VStr ''user''), (''content'', VArr entries)]]) of
        Inl m \<Rightarrow> Abort m w'
      | Inr response' \<Rightarrow>
          Next (messages @ [VObj [(''role'', VStr ''assistant''), (''content'', VArr blocks)],
                            VObj [(''role'', VStr ''user''), (''content'', VArr entries)]])
            response' w')"
  using assms by (simp add: chat_round_def iterate_def Let_def split: sum.splits)



lemma handlers_summary:
  "handlers ilike e ''get_portfolio_summary'' = Some (\<lambda>input. get_portfolio_summary e)"
  by (simp add: handlers_def handler_list_def)




lemma run_blocks_append:
  "run_blocks H (xs @ ys) w =
     (case run_blocks H xs w of
        (Inl m, w1) \<Rightarrow> (Inl m, w1)
      | (Inr entries1, w1) \<Rightarrow>
          (case run_blocks H ys w1 of
             (Inl m, w2) \<Rightarrow> (Inl m, w2)
           | (Inr entries2, w2) \<Rightarrow> (Inr (entries1 @ entries2), w2)))"
  by (induction xs arbitrary: w) (auto split: prod.splits sum.splits)

lemma run_blocks_unknown:
  assumes "member H (to_string (get_prop block ''name'')) = None"
    and "get_prop block ''type'' = VStr ''tool_use''"
    and "run_blocks H before w = (Inr entries1, w1)"
    and "run_blocks H after w1 = (Inr entries2, w2)"
  shows "run_blocks H (before @ VObj block # after) w =
     (Inr (entries1 @ error_entry (get_prop block ''id'') not_a_function # entries2), w2)"
proof -
  have "run_tool H block w1 = (error_entry (get_prop block ''id'') not_a_function, w1)"
    using assms(1) by (simp add: run_tool_no_function)
  then have "run_blocks H (VObj block # after) w1 =
      (Inr (error_entry (get_prop block ''id'') not_a_function # entries2), w2)"
    using assms(2,4) by simp
  then show ?thesis using assms(3) by (simp add: run_blocks_append)
qed

text \<open>
  C10, as amended. A response that requests, among its blocks, a tool under a name that
  the handler table does not have, neither as a handler nor as a member inherited from
  \<open>Object.prototype\<close>, no block being \<open>null\<close>: the call of \<open>undefined\<close> is caught. The
  blocks before it are run, the entry for the call is the error entry with the call's
  \<open>id\<close>, the state is handed on unchanged to the blocks after it, which are run as
  well; the next completion request is issued with all the entries, and the round ends
  the request only if that completion request fails; otherwise the loop goes on.
\<close>

theorem unknown_tool_caught:
  assumes "member H (to_string (get_prop block ''name'')) = None"
    and "get_prop block ''type'' = VStr ''tool_use''"
    and "get_prop response ''content'' = VArr (before @ VObj block # after)"
    and "VUndef \<notin> set (before @ after)" and "VNull \<notin> set (before @ after)"
  shows "\<exists>entries1 w1 entries2 w2.
      run_blocks H before w = (Inr entries1, w1)
    \<and> run_blocks H after w1 = (Inr entries2, w2)
    \<and> chat_round H api messages response w =
        (case api (messages
              @ [VObj [(''role'', VStr ''assistant''),
                       (''content'', VArr (before @ VObj block # after))],
                 VObj [(''role'', VStr ''user''), (''content'', VArr
                    (entries1
                     @ VObj [(''type'', VStr ''tool_result''),
                             (''tool_use_id'', get_prop block ''id''),
                             (''content'', VStr (''{'' @ quote ''error'' @ '':''
                                @ quote ''handlers[block.name] is not a function'' @ ''}'')),
                             (''is_error'', VBool True)]
                     # entries2))]]) of
           Inl m \<Rightarrow> Abort m w2
         | Inr response' \<Rightarrow>
             Next (messages
              @ [VObj [(''role'', VStr ''assistant''),
                       (''content'', VArr (before @ VObj block # after))],
                 VObj [(''role'', VStr ''user''), (''content'', VArr
                    (entries1
                     @ VObj [(''type'', VStr ''tool_result''),
                             (''tool_use_id'', get_prop block ''id''),
                             (''content'', VStr (''{'' @ quote ''error'' @ '':''
                                @ quote ''handlers[block.name] is not a function'' @ ''}'')),
                             (''is_error'', VBool True)]
                     # entries2))]])
               response' w2)
    \<and> (\<forall>response'. get_prop response ''stop_reason'' = VStr ''tool_use''
           \<and> api (messages
              @ [VObj [(''role'', VStr ''assistant''),
                       (''content'', VArr (before @ VObj block # after))],
                 VObj [(''role'', VStr ''user''), (''content'', VArr
                    (entries1
                     @ VObj [(''type'', VStr ''tool_result''),
                             (''tool_use_id'', get_prop block ''id''),
                             (''content'', VStr (''{'' @ quote ''error'' @ '':''
                                @ quote ''handlers[block.name] is not a function'' @ ''}'')),
                             (''is_error'', VBool True)]
                     # entries2))]]) = Inr response' \<longrightarrow>
         tool_loop H api messages response w =
           tool_loop H api
             (messages
              @ [VObj [(''role'', VStr ''assistant''),
                       (''content'', VArr (before @ VObj block # after))],
                 VObj [(''role'', VStr ''user''), (''content'', VArr
                    (entries1
                     @ VObj [(''type'', VStr ''tool_result''),
                             (''tool_use_id'', get_prop block ''id''),
                             (''content'', VStr (''{'' @ quote ''error'' @ '':''
                                @ quote ''handlers[block.name] is not a function'' @ ''}'')),
                             (''is_error'', VBool True)]
                     # entries2))]])
             response' w2)"
proof -
  from assms(4,5) have nb: "VUndef \<notin> set before" "VNull \<notin> set before"
    and na: "VUndef \<notin> set after" "VNull \<notin> set after" by simp_all
  obtain entries1 w1 where b: "run_blocks H before w = (Inr entries1, w1)"
    using run_blocks_entries[OF nb, of H w] by blast
  obtain entries2 w2 where a: "run_blocks H after w1 = (Inr entries2, w2)"
    using run_blocks_entries[OF na, of H w1] by blast
  note rb = run_blocks_unknown[OF assms(1,2) b a,
      unfolded error_entry_content not_a_function_def]
  note round = chat_round_batch[OF assms(3) rb, of api messages]
  have loop: "\<forall>response'. get_prop response ''stop_reason'' = VStr ''tool_use''
           \<and> api (messages
              @ [VObj [(''role'', VStr ''assistant''),
                       (''content'', VArr (before @ VObj block # after))],
                 VObj [(''role'', VStr ''user''), (''content'', VArr
                    (entries1
                     @ VObj [(''type'', VStr ''tool_result''),
                             (''tool_use_id'', get_prop block ''id''),
                             (''content'', VStr (''{'' @ quote ''error'' @ '':''
                                @ quote ''handlers[block.name] is not a function'' @ ''}'')),
                             (''is_error'', VBool True)]
                     # entries2))]]) = Inr response' \<longrightarrow>
         tool_loop H api messages response w =
           tool_loop H api
             (messages
              @ [VObj [(''role'', VStr ''assistant''),
                       (''content'', VArr (before @ VObj block # after))],
                 VObj [(''role'', VStr ''user''), (''content'', VArr
                    (entries1
                     @ VObj [(''type'', VStr ''tool_result''),
                             (''tool_use_id'', get_prop block ''id''),
                             (''content'', VStr (''{'' @ quote ''error'' @ '':''
                                @ quote ''handlers[block.name] is not a function'' @ ''}'')),
                             (''is_error'', VBool True)]
                     # entries2))]])
             response' w2"
    using round by (subst tool_loop.simps) simp
  show ?thesis using b a round loop by blast
qed

lemma handlers_no_frobnicate: "handlers ilike e ''frobnicate'' = None"
  by (simp add: handlers_def handler_list_def)

lemma handlers_no_toString: "handlers ilike e ''toString'' = None"
  by (simp add: handlers_def handler_list_def)

theorem unknown_tool_caught_witness:
  "chat_round (handlers (\<lambda>p v. False) still_env)
     (\<lambda>ms. Inr [(''stop_reason'', VStr ''end_turn''), (''content'', VArr [])]) []
     [(''stop_reason'', VStr ''tool_use''),
      (''content'', VArr
         [VObj [(''type'', VStr ''text''), (''text'', VStr ''Let me look.'')],
          VObj [(''type'', VStr ''tool_use''), (''id'', VStr ''toolu_1''),
                (''name'', VStr ''frobnicate''), (''input'', VObj [])],
          VObj [(''type'', VStr ''tool_use''), (''id'', VStr ''toolu_2''),
                (''name'', VStr ''get_portfolio_summary''), (''input'', VObj [])]])]
     empty_store
   = Next
       [VObj [(''role'', VStr ''assistant''), (''content'', VArr
          [VObj [(''type'', VStr ''text''), (''text'', VStr ''Let me look.'')],
           VObj [(''type'', VStr ''tool_use''), (''id'', VStr ''toolu_1''),
                 (''name'', VStr ''frobnicate''), (''input'', VObj [])],
           VObj [(''type'', VStr ''tool_use''), (''id'', VStr ''toolu_2''),
                 (''name'', VStr ''get_portfolio_summary''), (''input'', VObj [])]])],
        VObj [(''role'', VStr ''user''), (''content'', VArr
          [VObj [(''type'', VStr ''tool_result''), (''tool_use_id'', VStr ''toolu_1''),
                 (''content'', VStr (''{'' @ quote ''error'' @ '':''
                    @ quote ''handlers[block.name] is not a function'' @ ''}'')),
                 (''is_error'', VBool True)],
           VObj [(''type'', VStr ''tool_result''), (''tool_use_id'', VStr ''toolu_2''),
                 (''content'', VStr ''[]'')]])]]
       [(''stop_reason'', VStr ''end_turn''), (''content'', VArr [])]
       empty_store"
proof -
  let ?H = "handlers (\<lambda>p v. False) still_env"
  let ?t = "[(''type'', VStr ''text''), (''text'', VStr ''Let me look.'')]"
  let ?block = "[(''type'', VStr ''tool_use''), (''id'', VStr ''toolu_1''),
                 (''name'', VStr ''frobnicate''), (''input'', VObj [])]"
  let ?p2 = "[(''type'', VStr ''tool_use''), (''id'', VStr ''toolu_2''),
                (''name'', VStr ''get_portfolio_summary''), (''input'', VObj [])]"
  let ?response = "[(''stop_reason'', VStr ''tool_use''),
                    (''content'', VArr [VObj ?t, VObj ?block, VObj ?p2])]"
  have m: "member ?H (to_string (get_prop ?block ''name'')) = None"
    by (simp add: member_def handlers_no_frobnicate object_prototype_def get_prop_eval)
  have t: "get_prop ?block ''type'' = VStr ''tool_use''"
    and c: "get_prop ?response ''content'' = VArr ([VObj ?t] @ VObj ?block # [VObj ?p2])"
    by (simp_all add: get_prop_eval)
  have n: "VUndef \<notin> set ([VObj ?t] @ [VObj ?p2])" "VNull \<notin> set ([VObj ?t] @ [VObj ?p2])"
    by simp_all
  have t2: "run_tool ?H ?p2 empty_store
      = (VObj [(''type'', VStr ''tool_result''), (''tool_use_id'', VStr ''toolu_2''),
               (''content'', VStr ''[]'')], empty_store)"
    by (simp add: run_tool_def member_def handlers_summary get_prop_eval get_portfolio_summary_def
          still_env_def empty_store_def result_entry_def JSON_stringify_def)
  have b: "run_blocks ?H [VObj ?t] empty_store = (Inr [], empty_store)"
    by (simp add: get_prop_eval)
  have a: "run_blocks ?H [VObj ?p2] empty_store
      = (Inr [VObj [(''type'', VStr ''tool_result''), (''tool_use_id'', VStr ''toolu_2''),
               (''content'', VStr ''[]'')]], empty_store)"
    by (simp add: t2 get_prop_eval)
  from unknown_tool_caught[OF m t c n,
      of empty_store "\<lambda>ms. Inr [(''stop_reason'', VStr ''end_turn''), (''content'', VArr [])]" "[]"]
  show ?thesis using a b by (auto simp: get_prop_eval)
qed

text \<open>
  C10, as stated, fails for the names of the members that every object inherits:
  \<open>toString\<close> is not a handler, yet \<open>handlers['toString']\<close> is a function; the call
  succeeds and its entry is an ordinary result without \<open>is_error\<close>.
\<close>

theorem inherited_member_counterexample:
  "handlers (\<lambda>p v. False) still_env ''toString'' = None
   \<and> run_tool (handlers (\<lambda>p v. False) still_env)
       [(''type'', VStr ''tool_use''), (''id'', VStr ''toolu_1''),
        (''name'', VStr ''toString''), (''input'', VObj [])]
       empty_store
     = (VObj [(''type'', VStr ''tool_result''), (''tool_use_id'', VStr ''toolu_1''),
              (''content'', VStr (quote ''[object Object]''))], empty_store)"
  by (simp add: handlers_no_toString run_tool_def member_def object_prototype_def get_prop_eval
        result_entry_def JSON_stringify_def)

section \<open>Resolving the company\<close>

lemma find_company_absent:
  "\<forall>r \<in> set (tables s ''companies''). col r ''slug'' \<noteq> slug \<Longrightarrow> find_company s slug = VNull"
  by (simp add: find_company_def eq_filter_def single_def filter_False)

text \<open>
  C2, as amended. When no company has the slug, each of \<open>list_milestones\<close>,
  \<open>add_milestone\<close>, \<open>add_note\<close>, \<open>update_requirement\<close>, \<open>add_requirement\<close>,
  \<open>list_documents\<close>, \<open>add_document\<close>, \<open>add_contact\<close>, \<open>list_contacts\<close>, and
  \<open>upload_document\<close> for a slug other than \<open>platform\<close> and \<open>dev\<close>, fails with
  \<open>Company not found:\<close> and the slug, whatever its other arguments and whatever the
  store would have answered to the request that follows, and leaves the store as it is.
  \<open>get_recent_activity\<close> and \<open>list_all_documents\<close> answer as they do when no slug is
  given.
\<close>

theorem company_resolved_first:
  assumes "\<forall>r \<in> set (tables s ''companies''). col r ''slug'' \<noteq> slug"
  shows "list_milestones e slug s = (Inl (''Company not found: '' @ to_string slug), s)
    \<and> add_milestone e slug title due_date s = (Inl (''Company not found: '' @ to_string slug), s)
    \<and> add_note e slug content type s = (Inl (''Company not found: '' @ to_string slug), s)
    \<and> update_requirement ilike e slug item status s
        = (Inl (''Company not found: '' @ to_string slug), s)
    \<and> add_requirement e slug item status s = (Inl (''Company not found: '' @ to_string slug), s)
    \<and> list_documents order_column e slug s = (Inl (''Company not found: '' @ to_string slug), s)
    \<and> add_document e slug name type url notes s
        = (Inl (''Company not found: '' @ to_string slug), s)
    \<and> add_contact e slug name role email phone s
        = (Inl (''Company not found: '' @ to_string slug), s)
    \<and> list_contacts e slug s = (Inl (''Company not found: '' @ to_string slug), s)
    \<and> (slug \<noteq> VStr ''platform'' \<and> slug \<noteq> VStr ''dev'' \<longrightarrow>
         upload_document e slug filename content_base64 content_type category description s
           = (Inl (''Company not found: '' @ to_string slug), s))
    \<and> get_recent_activity e slug limit s = get_recent_activity e VUndef limit s
    \<and> (slug \<noteq> VStr ''platform'' \<and> slug \<noteq> VStr ''dev'' \<longrightarrow>
         list_all_documents e slug category s = list_all_documents e VUndef category s)"
  using find_company_absent[OF assms]
  by (simp add: list_milestones_def add_milestone_def add_note_def update_requirement_def
        add_requirement_def list_documents_def add_document_def add_contact_def list_contacts_def
        upload_document_def company_not_found_def get_recent_activity_def
        list_all_documents_def split: option.splits)

theorem company_resolved_first_witness:
  "add_milestone still_env (VStr ''ghost'') (VStr ''Kickoff'') VUndef
     (empty_store\<lparr>tables := (\<lambda>t. [])(''companies'' :=
        [[(''id'', VId 7), (''slug'', VStr ''dtiq''), (''name'', VStr ''DTIQ'')]])\<rparr>)
   = (Inl ''Company not found: ghost'',
      empty_store\<lparr>tables := (\<lambda>t. [])(''companies'' :=
        [[(''id'', VId 7), (''slug'', VStr ''dtiq''), (''name'', VStr ''DTIQ'')]])\<rparr>)"
proof -
  let ?s = "empty_store\<lparr>tables := (\<lambda>t. [])(''companies'' :=
        [[(''id'', VId 7), (''slug'', VStr ''dtiq''), (''name'', VStr ''DTIQ'')]])\<rparr>"
  have "\<forall>r \<in> set (tables ?s ''companies''). col r ''slug'' \<noteq> VStr ''ghost''"
    by (simp add: col_def empty_store_def)
  from company_resolved_first[OF this, of still_env "VStr ''Kickoff''" VUndef]
  show ?thesis by simp
qed

text \<open>
  C2, as stated, fails for \<open>get_recent_activity\<close>: a slug that no company has does not
  make it fail; the filter on the company is dropped and the activity of all companies
  is returned.
\<close>

theorem unresolved_slug_counterexample:
  "get_recent_activity still_env (VStr ''ghost'') VUndef
     (empty_store\<lparr>tables := (\<lambda>t. [])
        (''companies'' := [[(''id'', VId 3), (''slug'', VStr ''dtiq''), (''name'', VStr ''DTIQ'')]],
         ''activity'' := [[(''id'', VId 7), (''company_id'', VId 3),
                           (''content'', VStr ''Kickoff call held'')]])\<rparr>)
   = (Inr (VArr [VObj [(''id'', VId 7), (''company_id'', VId 3),
                       (''content'', VStr ''Kickoff call held''),
                       (''companies'', VObj [(''name'', VStr ''DTIQ''), (''slug'', VStr ''dtiq'')])]]),
      empty_store\<lparr>tables := (\<lambda>t. [])
        (''companies'' := [[(''id'', VId 3), (''slug'', VStr ''dtiq''), (''name'', VStr ''DTIQ'')]],
         ''activity'' := [[(''id'', VId 7), (''company_id'', VId 3),
                           (''content'', VStr ''Kickoff call held'')]])\<rparr>)"
  by (simp add: get_recent_activity_def find_company_def eq_filter_def single_def still_env_def
        empty_store_def order_by_def limit_rows_def dflt_def embed_company_def col_def
        select_cols_def)

section \<open>Deployments and their components\<close>

lemma rows_kept_refl: "rows_kept s s"
  by (simp add: rows_kept_def list_all2_same)

lemma list_all2_keep_trans:
  assumes "list_all2 (\<lambda>a b. f b = f a \<and> g b = g a) xs ys"
    and "list_all2 (\<lambda>a b. f b = f a \<and> g b = g a) ys zs"
  shows "list_all2 (\<lambda>a b. f b = f a \<and> g b = g a) xs zs"
  by (rule list_all2_trans[OF _ assms]) simp

lemma rows_kept_trans: "rows_kept s s1 \<Longrightarrow> rows_kept s1 s2 \<Longrightarrow> rows_kept s s2"
  unfolding rows_kept_def
  using list_all2_keep_trans[of "\<lambda>r. col r ''id''" "\<lambda>r. col r ''slug''"]
    list_all2_keep_trans[of "\<lambda>r. col r ''deployment_id''" "\<lambda>r. col r ''component_type''"]
  by (meson le_trans)

lemma rows_kept_same:
  "tables s' ''deployments'' = tables s ''deployments'' \<Longrightarrow>
   tables s' ''deployment_components'' = tables s ''deployment_components'' \<Longrightarrow>
   next_id s \<le> next_id s' \<Longrightarrow> rows_kept s s'"
  by (simp add: rows_kept_def list_all2_same)

lemma rows_kept_insert:
  "t \<noteq> ''deployments'' \<Longrightarrow> t \<noteq> ''deployment_components'' \<Longrightarrow>
   rows_kept s (snd (insert_rows t now rs s))"
  by (rule rows_kept_same) (simp_all add: insert_rows_def Let_def)

lemma rows_kept_update:
  "t \<noteq> ''deployments'' \<Longrightarrow> t \<noteq> ''deployment_components'' \<Longrightarrow>
   rows_kept s (snd (update_rows t p u s))"
  by (rule rows_kept_same) (simp_all add: update_rows_def)

lemma rows_kept_delete_dev_task: "rows_kept s (delete_rows ''dev_tasks'' p s)"
  by (rule rows_kept_same) (simp_all add: delete_rows_def cascades_def)

lemma rows_kept_requests: "rows_kept s (s\<lparr>requests := q\<rparr>)"
  by (rule rows_kept_same) simp_all

lemma rows_kept_bucket: "rows_kept s (s\<lparr>bucket := b\<rparr>)"
  by (rule rows_kept_same) simp_all

lemma rows_kept_update_deployments:
  assumes "''id'' \<notin> fst ` set u" "''slug'' \<notin> fst ` set u"
  shows "rows_kept s (snd (update_rows ''deployments'' p u s))"
  using assms
  by (simp add: rows_kept_def update_rows_def list_all2_map2 list_all2_same col_update_other)

lemma rows_kept_update_components:
  assumes "''deployment_id'' \<notin> fst ` set u" "''component_type'' \<notin> fst ` set u"
  shows "rows_kept s (snd (update_rows ''deployment_components'' p u s))"
  using assms
  by (simp add: rows_kept_def update_rows_def list_all2_map2 list_all2_same col_update_other)

lemma list_all2_set2: "list_all2 P xs ys \<Longrightarrow> y \<in> set ys \<Longrightarrow> \<exists>x \<in> set xs. P x y"
  by (induction rule: list_all2_induct) auto

lemma list_all2_filter_map:
  assumes "list_all2 (\<lambda>c c'. f c' = f c \<and> g c' = g c) xs ys"
  shows "map g (filter (\<lambda>c. f c = x) ys) = map g (filter (\<lambda>c. f c = x) xs)"
  using assms by (induction rule: list_all2_induct) auto

lemma list_all2_map_eq:
  assumes "list_all2 (\<lambda>c c'. f c' = f c \<and> g c' = g c) xs ys"
  shows "map g ys = map g xs"
  using assms by (induction rule: list_all2_induct) auto

lemma rows_kept_inv:
  assumes "rows_kept s s'" "deployments_inv s"
  shows "deployments_inv s'"
proof -
  from assms(1) have n: "next_id s \<le> next_id s'"
    and d: "list_all2 (\<lambda>d d'. col d' ''id'' = col d ''id'' \<and> col d' ''slug'' = col d ''slug'')
           (tables s ''deployments'') (tables s' ''deployments'')"
    and c: "list_all2 (\<lambda>c c'. col c' ''deployment_id'' = col c ''deployment_id''
                          \<and> col c' ''component_type'' = col c ''component_type'')
           (tables s ''deployment_components'') (tables s' ''deployment_components'')"
    by (simp_all add: rows_kept_def)
  have "\<exists>i < next_id s'. col d' ''id'' = VId i"
    if dm: "d' \<in> set (tables s' ''deployments'')" for d'
  proof -
    from list_all2_set2[OF d dm] obtain d0
      where "d0 \<in> set (tables s ''deployments'')" "col d' ''id'' = col d0 ''id''" by auto
    moreover from this assms(2) obtain i where "i < next_id s" "col d0 ''id'' = VId i"
      by (auto simp: deployments_inv_def)
    ultimately show ?thesis using n by (intro exI[of _ i]) simp
  qed
  moreover have "\<exists>i < next_id s'. col c' ''deployment_id'' = VId i"
    if cm: "c' \<in> set (tables s' ''deployment_components'')" for c'
  proof -
    from list_all2_set2[OF c cm] obtain c0
      where "c0 \<in> set (tables s ''deployment_components'')"
        "col c' ''deployment_id'' = col c0 ''deployment_id''" by auto
    moreover from this assms(2) obtain i where "i < next_id s" "col c0 ''deployment_id'' = VId i"
      by (auto simp: deployments_inv_def)
    ultimately show ?thesis using n by (intro exI[of _ i]) simp
  qed
  ultimately show ?thesis by (simp add: deployments_inv_def)
qed

lemma rows_kept_slugs:
  assumes "rows_kept s s'" "distinct_slugs s"
  shows "distinct_slugs s'"
proof -
  from assms(1) have "list_all2 (\<lambda>d d'. col d' ''id'' = col d ''id'' \<and> col d' ''slug'' = col d ''slug'')
           (tables s ''deployments'') (tables s' ''deployments'')"
    by (simp add: rows_kept_def)
  from list_all2_map_eq[OF this] assms(2) show ?thesis by (simp add: distinct_slugs_def)
qed

lemma rows_kept_four:
  assumes "rows_kept s s'" "four_components s"
  shows "four_components s'"
proof -
  from assms(1) have d: "list_all2 (\<lambda>d d'. col d' ''id'' = col d ''id'' \<and> col d' ''slug'' = col d ''slug'')
           (tables s ''deployments'') (tables s' ''deployments'')"
    and c: "list_all2 (\<lambda>c c'. col c' ''deployment_id'' = col c ''deployment_id''
                          \<and> col c' ''component_type'' = col c ''component_type'')
           (tables s ''deployment_components'') (tables s' ''deployment_components'')"
    by (simp_all add: rows_kept_def)
  have "map (\<lambda>c. col c ''component_type'') (components_of s' d') = component_types"
    if dm: "d' \<in> set (tables s' ''deployments'')" for d'
  proof -
    obtain d0 where d0: "d0 \<in> set (tables s ''deployments'')" "col d' ''id'' = col d0 ''id''"
      using list_all2_set2[OF d dm] by auto
    have "map (\<lambda>c. col c ''component_type'') (components_of s' d')
        = map (\<lambda>c. col c ''component_type'') (components_of s d0)"
      using list_all2_filter_map[OF c, of "col d0 ''id''"] d0(2)
      by (simp add: components_of_def eq_filter_def)
    then show ?thesis using assms(2) d0(1) by (simp add: four_components_def)
  qed
  then show ?thesis by (simp add: four_components_def)
qed

lemma rows_kept_destructure:
  "(\<And>a. rows_kept s (snd (f a s))) \<Longrightarrow> rows_kept s (snd (destructure x input f s))"
  by (simp add: destructure_def rows_kept_refl)

lemmas kept_simps = rows_kept_refl rows_kept_insert rows_kept_update rows_kept_delete_dev_task
  split_beta Let_def

lemma kept_list_companies: "rows_kept s (snd (list_companies e s))"
  by (simp add: list_companies_def kept_simps split: option.splits)

lemma kept_update_company_status: "rows_kept s (snd (update_company_status e slug status s))"
  by (simp add: update_company_status_def kept_simps split: option.splits)

lemma kept_list_milestones: "rows_kept s (snd (list_milestones e slug s))"
  by (simp add: list_milestones_def kept_simps split: option.splits val.splits)

lemma kept_update_milestone: "rows_kept s (snd (update_milestone e x status notes s))"
  by (simp add: update_milestone_snd kept_simps)

lemma kept_add_milestone: "rows_kept s (snd (add_milestone e slug title due_date s))"
  by (simp add: add_milestone_def kept_simps split: option.splits val.splits)

lemma kept_add_note: "rows_kept s (snd (add_note e slug content type s))"
  by (simp add: add_note_def kept_simps split: option.splits val.splits)

lemma kept_get_recent_activity: "rows_kept s (snd (get_recent_activity e slug limit s))"
  by (simp add: get_recent_activity_def kept_simps split: option.splits)

lemma kept_update_requirement: "rows_kept s (snd (update_requirement ilike e slug item status s))"
  by (simp add: update_requirement_def kept_simps split: option.splits val.splits)

lemma kept_add_requirement: "rows_kept s (snd (add_requirement e slug item status s))"
  by (simp add: add_requirement_def kept_simps split: option.splits val.splits)

lemma kept_list_documents: "rows_kept s (snd (list_documents oc e slug s))"
  by (simp add: list_documents_def kept_simps split: option.splits val.splits)

lemma kept_add_document: "rows_kept s (snd (add_document e slug name type url notes s))"
  by (simp add: add_document_def kept_simps split: option.splits val.splits)

lemma kept_add_contact: "rows_kept s (snd (add_contact e slug name role email phone s))"
  by (simp add: add_contact_def kept_simps split: option.splits val.splits)

lemma kept_list_contacts: "rows_kept s (snd (list_contacts e slug s))"
  by (simp add: list_contacts_def kept_simps split: option.splits val.splits)

lemma kept_get_portfolio_summary: "rows_kept s (snd (get_portfolio_summary e s))"
  by (simp add: get_portfolio_summary_def kept_simps split: option.splits)

lemma kept_add_dev_task:
  "rows_kept s (snd (add_dev_task e title description assigned_to priority steps due_date s))"
  by (simp add: add_dev_task_def kept_simps split: option.splits)

lemma kept_update_dev_task: "rows_kept s (snd (update_dev_task e x status assigned_to priority s))"
  by (simp add: update_dev_task_snd kept_simps)

lemma kept_delete_dev_task: "rows_kept s (snd (delete_dev_task e x s))"
  by (simp add: delete_dev_task_def kept_simps split: option.splits)

lemma kept_list_deployments: "rows_kept s (snd (list_deployments e status s))"
  by (simp add: list_deployments_def kept_simps split: option.splits)

lemma snd_get_deployment: "snd (get_deployment e slug x s) = s"
  by (simp add: get_deployment_def Let_def split: option.splits list.splits)

lemma kept_get_deployment: "rows_kept s (snd (get_deployment e slug x s))"
  by (simp add: snd_get_deployment rows_kept_refl)

lemma kept_list_all_documents: "rows_kept s (snd (list_all_documents e slug category s))"
  by (simp add: list_all_documents_def kept_simps split: option.splits)

lemma kept_get_document_content: "rows_kept s (snd (get_document_content e x s))"
  by (simp add: get_document_content_def kept_simps rows_kept_requests
      split: option.splits list.splits val.splits sum.splits)


lemma kept_upload_document:
  "rows_kept s (snd (upload_document e slug filename content_base64 content_type category
     description s))"
proof -
  have b: "rows_kept s (s\<lparr>bucket := b\<rparr>)" for b by (rule rows_kept_bucket)
  have i: "rows_kept s (snd (insert_rows ''documents'' now rs (s\<lparr>bucket := b\<rparr>)))" for now rs b
    using rows_kept_trans[OF rows_kept_bucket[of s b]
        rows_kept_insert[of "''documents''" "s\<lparr>bucket := b\<rparr>" now rs]]
    by simp
  show ?thesis
    by (simp add: upload_document_def kept_simps b i
        split: option.splits val.splits sum.splits)
qed

lemma kept_update_deployment:
  "rows_kept s (snd (update_deployment e x name description status s))"
proof -
  have "rows_kept s (snd (update_rows ''deployments'' p
      (deployment_updates e name description status) s))" for p
    by (rule rows_kept_update_deployments) (auto simp: deployment_updates_def)
  then show ?thesis
    by (simp add: update_deployment_def kept_simps split: option.splits list.splits)
qed

lemma kept_update_deployment_component:
  "rows_kept s (snd (update_deployment_component e x component status url config s))"
proof -
  have "rows_kept s (snd (update_rows ''deployment_components'' p
      (component_updates e existing status url config) s))" for p existing
    by (rule rows_kept_update_components) (auto simp: component_updates_def)
  then show ?thesis
    by (simp add: update_deployment_component_def kept_simps split: option.splits list.splits)
qed

lemma kept_probe: "rows_kept s (snd (probe e c s))"
  by (simp add: probe_def rows_kept_refl rows_kept_requests split: sum.splits)

lemma kept_check_component: "rows_kept s (fst (snd (check_component e c (results, s, k))))"
proof (cases "truthy (col c ''url'')")
  case False
  then show ?thesis by (simp add: check_component_unconfigured rows_kept_refl)
next
  case True
  obtain a s1 where p: "probe e c s = (a, s1)" by (cases "probe e c s")
  then have k1: "rows_kept s s1" using kept_probe[of s e c] by simp
  have "rows_kept s1 (snd (update_rows ''deployment_components'' q
      [(''status'', st), (''last_checked'', t), (''error_message'', em), (''updated_at'', t')] s1))"
    for q st t em t'
    by (rule rows_kept_update_components) simp_all
  then have k2: "rows_kept s1 (persist e k c
      [(''status'', st), (''last_checked'', t), (''error_message'', em), (''updated_at'', t')] s1)"
    for st t em t'
    by (simp add: persist_def rows_kept_refl)
  show ?thesis
  proof (cases a)
    case (Inl m)
    then show ?thesis using check_component_down[OF True, of e s m s1 results k] p
      rows_kept_trans[OF k1 k2] by simp
  next
    case (Inr b)
    obtain code l where "b = (code, l)" by (cases b)
    then show ?thesis using check_component_response[OF True, of e s code l s1 results k] p Inr
      rows_kept_trans[OF k1 k2] by simp
  qed
qed

lemma kept_fold_check_component:
  "rows_kept s (fst (snd (fold (check_component e) cs (results, s, k))))"
proof (induction cs arbitrary: results s k)
  case Nil
  show ?case by (simp add: rows_kept_refl)
next
  case (Cons c cs)
  obtain r1 s1 k1 where st: "check_component e c (results, s, k) = (r1, s1, k1)"
    by (cases "check_component e c (results, s, k)") auto
  have "rows_kept s s1" using kept_check_component[of s e c results k] st by simp
  from rows_kept_trans[OF this Cons.IH[where results = r1 and s = s1 and k = k1]]
  show ?case using st by simp
qed

lemma kept_check_deployment_health: "rows_kept s (snd (check_deployment_health e x s))"
  using kept_fold_check_component[of s e _ "[]" 0]
  by (simp add: check_deployment_health_def rows_kept_refl split_beta Let_def split: option.splits)

lemmas handler_kept = kept_list_companies kept_update_company_status kept_list_milestones
  kept_update_milestone kept_add_milestone kept_add_note kept_get_recent_activity
  kept_update_requirement kept_add_requirement kept_list_documents kept_add_document
  kept_add_contact kept_list_contacts kept_get_portfolio_summary kept_add_dev_task
  kept_update_dev_task kept_delete_dev_task kept_list_deployments kept_get_deployment
  kept_list_all_documents kept_get_document_content kept_upload_document kept_update_deployment
  kept_update_deployment_component kept_check_deployment_health

lemma snd_destructure:
  "snd (destructure x input f s) =
     (if input = VUndef \<or> input = VNull then s else snd (f (own_props input) s))"
  by (simp add: destructure_def)

lemma handler_list_kept:
  "\<forall>(name, h) \<in> set (handler_list ilike e).
     name \<noteq> ''add_deployment'' \<longrightarrow> name \<noteq> ''delete_deployment'' \<longrightarrow>
     (\<forall>input s. rows_kept s (snd (h input s)))"
  by (simp add: handler_list_def snd_destructure handler_kept rows_kept_refl)

lemma handlers_kept:
  assumes "handlers ilike e name = Some h"
    and "name \<noteq> ''add_deployment''" and "name \<noteq> ''delete_deployment''"
  shows "rows_kept s (snd (h input s))"
proof -
  have "(name, h) \<in> set (handler_list ilike e)"
    using assms(1) unfolding handlers_def by (rule map_of_SomeD)
  then show ?thesis using handler_list_kept[of ilike e] assms(2,3) by blast
qed

lemma col_Cons: "col ((k, v) # r) k' = (if k' = k then v else col r k')"
  by (simp add: col_def)

lemma col_Nil: "col [] k = VNull"
  by (simp add: col_def)

lemmas col_eval = col_Cons col_Nil

lemma col_new_row_id: "''id'' \<notin> fst ` set r \<Longrightarrow> col (new_row t now i r) ''id'' = VId i"
proof -
  assume "''id'' \<notin> fst ` set r"
  then have "col (new_row t now i r) ''id'' = col ((''id'', VId i) # defaults t now) ''id''"
    unfolding new_row_def by (rule col_update_other)
  then show ?thesis by (simp add: col_def)
qed

lemma col_new_row:
  "col (new_row t now i r) k =
     (case map_of (rev (defined_props r)) k of
        Some v \<Rightarrow> v
      | None \<Rightarrow> col ((''id'', VId i) # defaults t now) k)"
  by (simp add: new_row_def col_spread)

lemma filter_distinct_map:
  "distinct (map f xs) \<Longrightarrow> filter (\<lambda>x. f x = v) xs = [] \<or> (\<exists>x. filter (\<lambda>x. f x = v) xs = [x])"
proof (induction xs)
  case Nil
  then show ?case by simp
next
  case (Cons a xs)
  show ?case
  proof (cases "f a = v")
    case True
    then have "v \<notin> f ` set xs" using Cons.prems by auto
    then have "filter (\<lambda>x. f x = v) xs = []" by (auto simp: filter_empty_conv)
    then show ?thesis using True by simp
  next
    case False
    then show ?thesis using Cons by simp
  qed
qed

text \<open>The lookup with which \<open>add_deployment\<close> tests whether the slug is taken.\<close>

lemma slug_lookup:
  assumes "distinct (map (\<lambda>d. col d ''slug'') (tables s ''deployments''))"
  shows "truthy (single (map (select_cols [''id''])
            (eq_filter ''slug'' v (tables s ''deployments''))))
         \<longleftrightarrow> v \<in> (\<lambda>d. col d ''slug'') ` set (tables s ''deployments'')"
proof -
  from filter_distinct_map[OF assms, of v]
  show ?thesis
  proof
    assume e: "filter (\<lambda>x. col x ''slug'' = v) (tables s ''deployments'') = []"
    then have "v \<notin> (\<lambda>d. col d ''slug'') ` set (tables s ''deployments'')"
      by (auto simp: filter_empty_conv)
    then show ?thesis using e by (simp add: eq_filter_def single_def)
  next
    assume "\<exists>x. filter (\<lambda>x. col x ''slug'' = v) (tables s ''deployments'') = [x]"
    then obtain x where x: "filter (\<lambda>x. col x ''slug'' = v) (tables s ''deployments'') = [x]"
      by blast
    then have "x \<in> set (filter (\<lambda>x. col x ''slug'' = v) (tables s ''deployments''))" by simp
    then have "v \<in> (\<lambda>d. col d ''slug'') ` set (tables s ''deployments'')" by auto
    then show ?thesis using x by (simp add: eq_filter_def single_def)
  qed
qed

lemma slug_free:
  assumes "v \<notin> (\<lambda>d. col d ''slug'') ` set (tables s ''deployments'')"
  shows "single (map (select_cols [''id'']) (eq_filter ''slug'' v (tables s ''deployments'')))
         = VNull"
proof -
  have "filter (\<lambda>x. col x ''slug'' = v) (tables s ''deployments'') = []"
    using assms by (auto simp: filter_empty_conv)
  then show ?thesis by (simp add: eq_filter_def single_def)
qed

text \<open>The store after the row of a new deployment has been inserted.\<close>

lemma add_deployment_state:
  "snd (add_deployment e (VStr n) description github_url frontend_url mcp_server_url database_type
       database_provider s) =
     (let slug = derive_slug n;
          s1 = snd (insert_rows ''deployments'' (db_clock e)
                 [[(''name'', VStr n), (''slug'', VStr slug),
                   (''description'', description), (''status'', VStr ''active'')]] s);
          s2 = snd (insert_rows ''deployment_components'' (db_clock e)
                 (new_components (VId (next_id s)) github_url frontend_url mcp_server_url
                    database_type database_provider) s1)
      in if (\<not> failed e 0 \<and> truthy (single (map (select_cols [''id''])
                 (eq_filter ''slug'' (VStr slug) (tables s ''deployments'')))))
            \<or> refused e 0 \<noteq> None
         then s
         else if refused e 1 \<noteq> None then s1 else s2)"
  by (auto simp: add_deployment_def Let_def split_beta snd_get_deployment insert_rows_def
        col_new_row_id split: option.splits)


lemma tables_insert_rows:
  "tables (snd (insert_rows t now rs s)) t' =
     (if t' = t
      then tables s t @ map (\<lambda>(i, r). new_row t now i r)
             (zip [next_id s ..< next_id s + length rs] rs)
      else tables s t')"
  by (simp add: insert_rows_def Let_def)

lemma next_id_insert_rows: "next_id (snd (insert_rows t now rs s)) = next_id s + length rs"
  by (simp add: insert_rows_def Let_def)

lemma length_new_components [simp]: "length (new_components d g f m dt dp) = 4"
  by (simp add: new_components_def)

lemma four_ids: "length ids = 4 \<Longrightarrow> \<exists>a b c d. ids = [a, b, c, d]"
  by (cases ids; simp; rename_tac x1 l1; case_tac l1; simp; rename_tac x2 l2; case_tac l2; simp;
      rename_tac x3 l3; case_tac l3; simp)

lemma new_component_rows:
  assumes "length ids = 4" "d \<noteq> VUndef"
  shows "map (\<lambda>c. col c ''component_type'')
           (map (\<lambda>(i, r). new_row ''deployment_components'' now i r)
              (zip ids (new_components d g f m dt dp))) = component_types"
    and "\<forall>c \<in> set (map (\<lambda>(i, r). new_row ''deployment_components'' now i r)
              (zip ids (new_components d g f m dt dp))). col c ''deployment_id'' = d"
proof -
  obtain i1 i2 i3 i4 where ids: "ids = [i1, i2, i3, i4]" using four_ids[OF assms(1)] by blast
  show "map (\<lambda>c. col c ''component_type'')
           (map (\<lambda>(i, r). new_row ''deployment_components'' now i r)
              (zip ids (new_components d g f m dt dp))) = component_types"
    unfolding ids
    by (simp add: new_components_def col_new_row defined_props_def component_types_def col_eval
        defaults_def)
  show "\<forall>c \<in> set (map (\<lambda>(i, r). new_row ''deployment_components'' now i r)
              (zip ids (new_components d g f m dt dp))). col c ''deployment_id'' = d"
    unfolding ids using assms(2)
    by (simp add: new_components_def col_new_row defined_props_def col_eval defaults_def)
qed

lemma new_deployment_row:
  "col (new_row ''deployments'' now i [(''name'', VStr n), (''slug'', VStr slug),
          (''description'', description), (''status'', VStr ''active'')]) ''id'' = VId i"
  "col (new_row ''deployments'' now i [(''name'', VStr n), (''slug'', VStr slug),
          (''description'', description), (''status'', VStr ''active'')]) ''slug'' = VStr slug"
  by (simp_all add: col_new_row defined_props_def defaults_def col_eval)

lemma add_deployment_inv:
  assumes "deployments_inv s"
  shows "deployments_inv (snd (add_deployment e name description github_url frontend_url
           mcp_server_url database_type database_provider s))"
proof (cases name)
  case (VStr n)
  let ?slug = "derive_slug n"
  let ?r0 = "[(''name'', VStr n), (''slug'', VStr ?slug),
              (''description'', description), (''status'', VStr ''active'')]"
  let ?s1 = "snd (insert_rows ''deployments'' (db_clock e) [?r0] s)"
  let ?s2 = "snd (insert_rows ''deployment_components'' (db_clock e)
                 (new_components (VId (next_id s)) github_url frontend_url mcp_server_url
                    database_type database_provider) ?s1)"
  from assms have ids: "\<forall>d \<in> set (tables s ''deployments''). \<exists>i < next_id s. col d ''id'' = VId i"
    and cids: "\<forall>c \<in> set (tables s ''deployment_components'').
            \<exists>i < next_id s. col c ''deployment_id'' = VId i"
    by (simp_all add: deployments_inv_def)
  have inv1: "deployments_inv ?s1"
    unfolding deployments_inv_def
    using ids cids
    by (auto simp: tables_insert_rows next_id_insert_rows new_deployment_row less_SucI)
  have inv2: "deployments_inv ?s2"
  proof -
    have n1: "next_id ?s1 = Suc (next_id s)" by (simp add: next_id_insert_rows)
    let ?new = "map (\<lambda>(i, r). new_row ''deployment_components'' (db_clock e) i r)
        (zip [next_id ?s1 ..< next_id ?s1 + 4]
           (new_components (VId (next_id s)) github_url frontend_url mcp_server_url
              database_type database_provider))"
    have new: "\<forall>c \<in> set ?new. col c ''deployment_id'' = VId (next_id s)"
      by (rule new_component_rows(2)) simp_all
    have t2: "tables ?s2 ''deployment_components'' = tables ?s1 ''deployment_components'' @ ?new"
      "tables ?s2 ''deployments'' = tables ?s1 ''deployments''"
      "next_id ?s2 = next_id ?s1 + 4"
      by (simp_all add: tables_insert_rows[of "''deployment_components''"]
          next_id_insert_rows[of "''deployment_components''"])
    show ?thesis
      unfolding deployments_inv_def t2
      using inv1 new n1 unfolding deployments_inv_def
      by (auto intro: less_SucI trans_less_add1)
  qed
  show ?thesis
    unfolding VStr add_deployment_state Let_def
    using assms inv1 inv2 by simp
next
qed (simp_all add: add_deployment_def assms)

lemma add_deployment_slugs:
  assumes "distinct_slugs s" and "\<not> failed e 0"
  shows "distinct_slugs (snd (add_deployment e name description github_url frontend_url
           mcp_server_url database_type database_provider s))"
proof (cases name)
  case (VStr n)
  let ?slug = "derive_slug n"
  let ?r0 = "[(''name'', VStr n), (''slug'', VStr ?slug),
              (''description'', description), (''status'', VStr ''active'')]"
  let ?s1 = "snd (insert_rows ''deployments'' (db_clock e) [?r0] s)"
  let ?s2 = "snd (insert_rows ''deployment_components'' (db_clock e)
                 (new_components (VId (next_id s)) github_url frontend_url mcp_server_url
                    database_type database_provider) ?s1)"
  from assms(1) have dist: "distinct (map (\<lambda>d. col d ''slug'') (tables s ''deployments''))"
    by (simp add: distinct_slugs_def)
  have d1: "distinct_slugs ?s1"
    if free: "VStr ?slug \<notin> (\<lambda>d. col d ''slug'') ` set (tables s ''deployments'')"
    unfolding distinct_slugs_def
    using dist free by (auto simp: tables_insert_rows new_deployment_row)
  have d2: "distinct_slugs ?s2" if "distinct_slugs ?s1"
    using that by (simp add: distinct_slugs_def tables_insert_rows[of "''deployment_components''"])
  show ?thesis
    unfolding VStr add_deployment_state Let_def
    using assms d1 d2 slug_lookup[OF dist, of "VStr ?slug"]
    by auto
next
qed (simp_all add: add_deployment_def assms)

lemma add_deployment_four:
  assumes inv: "deployments_inv s" and four: "four_components s" and ok: "refused e 1 = None"
  shows "four_components (snd (add_deployment e name description github_url frontend_url
           mcp_server_url database_type database_provider s))"
proof (cases name)
  case (VStr n)
  let ?slug = "derive_slug n"
  let ?r0 = "[(''name'', VStr n), (''slug'', VStr ?slug),
              (''description'', description), (''status'', VStr ''active'')]"
  let ?d = "new_row ''deployments'' (db_clock e) (next_id s) ?r0"
  let ?s1 = "snd (insert_rows ''deployments'' (db_clock e) [?r0] s)"
  let ?s2 = "snd (insert_rows ''deployment_components'' (db_clock e)
                 (new_components (VId (next_id s)) github_url frontend_url mcp_server_url
                    database_type database_provider) ?s1)"
  let ?new = "map (\<lambda>(i, r). new_row ''deployment_components'' (db_clock e) i r)
        (zip [next_id ?s1 ..< next_id ?s1 + 4]
           (new_components (VId (next_id s)) github_url frontend_url mcp_server_url
              database_type database_provider))"
  from inv have ids: "\<forall>d \<in> set (tables s ''deployments''). \<exists>i < next_id s. col d ''id'' = VId i"
    and cids: "\<forall>c \<in> set (tables s ''deployment_components'').
            \<exists>i < next_id s. col c ''deployment_id'' = VId i"
    by (simp_all add: deployments_inv_def)
  have new_ids: "\<forall>c \<in> set ?new. col c ''deployment_id'' = VId (next_id s)"
    by (rule new_component_rows(2)) simp_all
  have new_types: "map (\<lambda>c. col c ''component_type'') ?new = component_types"
    by (rule new_component_rows(1)) simp_all
  have d2: "tables ?s2 ''deployments'' = tables s ''deployments'' @ [?d]"
    and c2: "tables ?s2 ''deployment_components'' = tables s ''deployment_components'' @ ?new"
    by (simp_all add: tables_insert_rows[of "''deployment_components''"]
        tables_insert_rows[of "''deployments''"])
  have old_none: "filter (\<lambda>c. col c ''deployment_id'' = VId (next_id s))
      (tables s ''deployment_components'') = []"
    using cids by (auto simp: filter_empty_conv)
  have new_all: "filter (\<lambda>c. col c ''deployment_id'' = VId (next_id s)) ?new = ?new"
    using new_ids by (simp add: filter_id_conv)
  have new_none: "filter (\<lambda>c. col c ''deployment_id'' = col d ''id'') ?new = []"
    if "d \<in> set (tables s ''deployments'')" for d
  proof -
    from ids that obtain i where "i < next_id s" "col d ''id'' = VId i" by blast
    then show ?thesis using new_ids by (auto simp: filter_empty_conv)
  qed
  have "four_components ?s2"
    unfolding four_components_def components_of_def eq_filter_def d2 c2
    using four new_none old_none new_all new_types
    by (auto simp: four_components_def components_of_def eq_filter_def new_deployment_row)
  then show ?thesis
    unfolding VStr add_deployment_state Let_def
    using four ok by auto
qed (simp_all add: add_deployment_def four)

lemma tables_delete_deployment:
  "tables (delete_rows ''deployments'' p s) ''deployments''
     = filter (\<lambda>r. \<not> p r) (tables s ''deployments'')"
  "tables (delete_rows ''deployments'' p s) ''deployment_components''
     = filter (\<lambda>r. col r ''deployment_id''
                  \<notin> set (map (\<lambda>r. col r ''id'') (filter p (tables s ''deployments''))))
         (tables s ''deployment_components'')"
  "next_id (delete_rows ''deployments'' p s) = next_id s"
  by (simp_all add: delete_rows_def Let_def cascades_def)

lemma snd_delete_deployment:
  "snd (delete_deployment e x s) =
     (if refused e 0 = None then delete_rows ''deployments'' (\<lambda>r. col r ''id'' = x) s else s)"
  by (simp add: delete_deployment_def split: option.splits)

lemma delete_deployment_inv:
  assumes "deployments_inv s"
  shows "deployments_inv (snd (delete_deployment e x s))"
  using assms
  by (auto simp: snd_delete_deployment deployments_inv_def tables_delete_deployment)

lemma delete_deployment_slugs:
  assumes "distinct_slugs s"
  shows "distinct_slugs (snd (delete_deployment e x s))"
  using assms
  by (auto simp: snd_delete_deployment distinct_slugs_def tables_delete_deployment
      distinct_map_filter)

lemma delete_deployment_four:
  assumes "four_components s"
  shows "four_components (snd (delete_deployment e x s))"
proof -
  have "filter (\<lambda>c. col c ''deployment_id'' = col d ''id'')
          (filter (\<lambda>r. col r ''deployment_id''
                  \<notin> set (map (\<lambda>r. col r ''id'')
                      (filter (\<lambda>r. col r ''id'' = x) (tables s ''deployments''))))
             (tables s ''deployment_components''))
      = filter (\<lambda>c. col c ''deployment_id'' = col d ''id'') (tables s ''deployment_components'')"
    if "col d ''id'' \<noteq> x" for d
    using that by (auto intro!: filter_cong)
  then show ?thesis
    using assms
    by (auto simp: snd_delete_deployment four_components_def components_of_def eq_filter_def
        tables_delete_deployment)
qed

text \<open>The deployment that is deleted takes its components with it.\<close>

lemma delete_deployment_cascade:
  assumes "refused e 0 = None" "d \<in> set (tables s ''deployments'')" "col d ''id'' = x"
  shows "components_of (snd (delete_deployment e x s)) d = []"
    and "d \<notin> set (tables (snd (delete_deployment e x s)) ''deployments'')"
  using assms
  by (auto simp: snd_delete_deployment components_of_def eq_filter_def tables_delete_deployment
      filter_empty_conv)

lemma handlers_add_deployment:
  "handlers ilike e ''add_deployment'' = Some (\<lambda>input. destructure ''name'' input (\<lambda>a.
         add_deployment e (get_prop a ''name'') (get_prop a ''description'')
           (get_prop a ''github_url'') (get_prop a ''frontend_url'')
           (get_prop a ''mcp_server_url'') (get_prop a ''database_type'')
           (get_prop a ''database_provider'')))"
  by (simp add: handlers_def handler_list_def)

lemma handlers_delete_deployment:
  "handlers ilike e ''delete_deployment'' = Some (\<lambda>input. destructure ''deployment_id'' input (\<lambda>a.
         delete_deployment e (get_prop a ''deployment_id'')))"
  by (simp add: handlers_def handler_list_def)

lemma handlers_inv:
  assumes "handlers ilike e name = Some h" "deployments_inv s"
  shows "deployments_inv (snd (h input s))"
proof (cases "name = ''add_deployment'' \<or> name = ''delete_deployment''")
  case False
  then show ?thesis using handlers_kept[OF assms(1), of s input] rows_kept_inv assms(2) by blast
next
  case True
  then consider "name = ''add_deployment''" | "name = ''delete_deployment''" by blast
  then show ?thesis
  proof cases
    case 1
    then have h: "h = (\<lambda>input. destructure ''name'' input (\<lambda>a.
         add_deployment e (get_prop a ''name'') (get_prop a ''description'')
           (get_prop a ''github_url'') (get_prop a ''frontend_url'')
           (get_prop a ''mcp_server_url'') (get_prop a ''database_type'')
           (get_prop a ''database_provider'')))"
      using assms(1) handlers_add_deployment[of ilike e] by simp
    show ?thesis
      unfolding h snd_destructure
      using add_deployment_inv[OF assms(2)] assms(2) by simp
  next
    case 2
    then have h: "h = (\<lambda>input. destructure ''deployment_id'' input (\<lambda>a.
         delete_deployment e (get_prop a ''deployment_id'')))"
      using assms(1) handlers_delete_deployment[of ilike e] by simp
    show ?thesis
      unfolding h snd_destructure
      using delete_deployment_inv[OF assms(2)] assms(2) by simp
  qed
qed

lemma handlers_slugs:
  assumes "handlers ilike e name = Some h" "distinct_slugs s"
    and "name = ''add_deployment'' \<longrightarrow> \<not> failed e 0"
  shows "distinct_slugs (snd (h input s))"
proof (cases "name = ''add_deployment'' \<or> name = ''delete_deployment''")
  case False
  then show ?thesis using handlers_kept[OF assms(1), of s input] rows_kept_slugs assms(2) by blast
next
  case True
  then consider "name = ''add_deployment''" | "name = ''delete_deployment''" by blast
  then show ?thesis
  proof cases
    case 1
    then have h: "h = (\<lambda>input. destructure ''name'' input (\<lambda>a.
         add_deployment e (get_prop a ''name'') (get_prop a ''description'')
           (get_prop a ''github_url'') (get_prop a ''frontend_url'')
           (get_prop a ''mcp_server_url'') (get_prop a ''database_type'')
           (get_prop a ''database_provider'')))"
      using assms(1) handlers_add_deployment[of ilike e] by simp
    have ok: "\<not> failed e 0" using assms(3) 1 by simp
    show ?thesis
      unfolding h snd_destructure
      using add_deployment_slugs[OF assms(2) ok] assms(2) by simp
  next
    case 2
    then have h: "h = (\<lambda>input. destructure ''deployment_id'' input (\<lambda>a.
         delete_deployment e (get_prop a ''deployment_id'')))"
      using assms(1) handlers_delete_deployment[of ilike e] by simp
    show ?thesis
      unfolding h snd_destructure
      using delete_deployment_slugs[OF assms(2)] assms(2) by simp
  qed
qed

lemma handlers_four:
  assumes "handlers ilike e name = Some h" "deployments_inv s" "four_components s"
    and "name = ''add_deployment'' \<longrightarrow> refused e 1 = None"
  shows "four_components (snd (h input s))"
proof (cases "name = ''add_deployment'' \<or> name = ''delete_deployment''")
  case False
  then show ?thesis using handlers_kept[OF assms(1), of s input] rows_kept_four assms(3) by blast
next
  case True
  then consider "name = ''add_deployment''" | "name = ''delete_deployment''" by blast
  then show ?thesis
  proof cases
    case 1
    then have h: "h = (\<lambda>input. destructure ''name'' input (\<lambda>a.
         add_deployment e (get_prop a ''name'') (get_prop a ''description'')
           (get_prop a ''github_url'') (get_prop a ''frontend_url'')
           (get_prop a ''mcp_server_url'') (get_prop a ''database_type'')
           (get_prop a ''database_provider'')))"
      using assms(1) handlers_add_deployment[of ilike e] by simp
    have ok: "refused e 1 = None" using assms(4) 1 by simp
    show ?thesis
      unfolding h snd_destructure
      using add_deployment_four[OF assms(2,3) ok] assms(3) by simp
  next
    case 2
    then have h: "h = (\<lambda>input. destructure ''deployment_id'' input (\<lambda>a.
         delete_deployment e (get_prop a ''deployment_id'')))"
      using assms(1) handlers_delete_deployment[of ilike e] by simp
    show ?thesis
      unfolding h snd_destructure
      using delete_deployment_four[OF assms(3)] assms(3) by simp
  qed
qed

lemma reachable_inv: "reachable A s \<Longrightarrow> deployments_inv s"
proof (induction rule: reachable.induct)
  case (initial s)
  then show ?case by (simp add: deployments_inv_def)
next
  case (call s ilike e name h input)
  then show ?case using handlers_inv by blast
qed

lemma reachable_slugs:
  "reachable (\<lambda>name e. name = ''add_deployment'' \<longrightarrow> \<not> failed e 0) s \<Longrightarrow> distinct_slugs s"
proof (induction rule: reachable.induct)
  case (initial s)
  then show ?case by (simp add: distinct_slugs_def)
next
  case (call s ilike e name h input)
  then show ?case using handlers_slugs[OF call.hyps(2)] by blast
qed

lemma reachable_four:
  "reachable (\<lambda>name e. name = ''add_deployment'' \<longrightarrow> refused e 1 = None) s \<Longrightarrow> four_components s"
proof (induction rule: reachable.induct)
  case (initial s)
  then show ?case by (simp add: four_components_def)
next
  case (call s ilike e name h input)
  then show ?case using handlers_four[OF call.hyps(2) reachable_inv[OF call.hyps(1)]] by blast
qed

lemma my_cool_app: "derive_slug ''My Cool App!!'' = ''my-cool-app''"
  by (simp add: derive_slug_def toLowerCase_def lower_char_def alnum_def strip_edges_def)

lemma add_deployment_taken:
  assumes "distinct_slugs s" and "\<not> failed e 0"
    and "VStr (derive_slug n) \<in> (\<lambda>d. col d ''slug'') ` set (tables s ''deployments'')"
  shows "add_deployment e (VStr n) description github_url frontend_url mcp_server_url
           database_type database_provider s = (Inl (slug_taken (derive_slug n)), s)"
proof -
  have "distinct (map (\<lambda>d. col d ''slug'') (tables s ''deployments''))"
    using assms(1) by (simp add: distinct_slugs_def)
  from slug_lookup[OF this, of "VStr (derive_slug n)"] assms(2,3)
  show ?thesis by (simp add: add_deployment_def Let_def)
qed

lemma add_deployment_unanswered:
  assumes "failed e 0"
  shows "refused e 0 = Some m \<Longrightarrow>
      add_deployment e (VStr n) description github_url frontend_url mcp_server_url
        database_type database_provider s = (Inl m, s)"
    and "refused e 0 = None \<Longrightarrow>
      tables (snd (add_deployment e (VStr n) description github_url frontend_url mcp_server_url
        database_type database_provider s)) ''deployments''
      = tables s ''deployments''
        @ [new_row ''deployments'' (db_clock e) (next_id s)
             [(''name'', VStr n), (''slug'', VStr (derive_slug n)),
              (''description'', description), (''status'', VStr ''active'')]]"
proof -
  show "refused e 0 = Some m \<Longrightarrow>
      add_deployment e (VStr n) description github_url frontend_url mcp_server_url
        database_type database_provider s = (Inl m, s)"
    using assms by (simp add: add_deployment_def Let_def)
  show "refused e 0 = None \<Longrightarrow>
      tables (snd (add_deployment e (VStr n) description github_url frontend_url mcp_server_url
        database_type database_provider s)) ''deployments''
      = tables s ''deployments''
        @ [new_row ''deployments'' (db_clock e) (next_id s)
             [(''name'', VStr n), (''slug'', VStr (derive_slug n)),
              (''description'', description), (''status'', VStr ''active'')]]"
    unfolding add_deployment_state Let_def
    using assms
    by (simp add: tables_insert_rows[of "''deployment_components''"]
          tables_insert_rows[of "''deployments''"])
qed

text \<open>
  C5, as amended. The slug derived from a name is the lowercased name's maximal runs of
  \<open>a-z0-9\<close> joined by single hyphens, so it has no hyphen at either end and none
  doubled; \<open>My Cool App!!\<close> gives \<open>my-cool-app\<close>. In every state the handlers can
  reach while the store answers the lookups of \<open>add_deployment\<close>, a call of
  \<open>add_deployment\<close> whose lookup is answered, with a name whose slug some deployment
  already has, fails with the collision error and leaves the store as it is. A call
  whose lookup the store fails takes the slug for free: it fails with the store's
  message when the insert is refused, and otherwise inserts a deployment with this slug.
\<close>

theorem deployment_slug:
  "derive_slug name = spec_slug name
   \<and> derive_slug ''My Cool App!!'' = ''my-cool-app''
   \<and> (reachable (\<lambda>name e. name = ''add_deployment'' \<longrightarrow> \<not> failed e 0) s \<and> \<not> failed e 0
        \<and> VStr (derive_slug name) \<in> (\<lambda>d. col d ''slug'') ` set (tables s ''deployments'') \<longrightarrow>
      add_deployment e (VStr name) description github_url frontend_url mcp_server_url
        database_type database_provider s
      = (Inl (''Deployment with slug '' @ [CHR 0x22] @ derive_slug name @ [CHR 0x22]
              @ '' already exists''), s))
   \<and> (failed e 0 \<and> refused e 0 = Some m \<longrightarrow>
      add_deployment e (VStr name) description github_url frontend_url mcp_server_url
        database_type database_provider s = (Inl m, s))
   \<and> (failed e 0 \<and> refused e 0 = None \<longrightarrow>
      tables (snd (add_deployment e (VStr name) description github_url frontend_url
        mcp_server_url database_type database_provider s)) ''deployments''
      = tables s ''deployments''
        @ [new_row ''deployments'' (db_clock e) (next_id s)
             [(''name'', VStr name), (''slug'', VStr (derive_slug name)),
              (''description'', description), (''status'', VStr ''active'')]])"
proof (intro conjI impI)
  show "derive_slug name = spec_slug name"
    by (simp add: derive_slug_def spec_slug_def alnum_words_def strip_replace_runs)
  show "derive_slug ''My Cool App!!'' = ''my-cool-app''"
    by (rule my_cool_app)
  {
    assume "reachable (\<lambda>name e. name = ''add_deployment'' \<longrightarrow> \<not> failed e 0) s \<and> \<not> failed e 0
        \<and> VStr (derive_slug name) \<in> (\<lambda>d. col d ''slug'') ` set (tables s ''deployments'')"
    then have "distinct_slugs s" and "\<not> failed e 0"
      and "VStr (derive_slug name) \<in> (\<lambda>d. col d ''slug'') ` set (tables s ''deployments'')"
      using reachable_slugs[of s] by simp_all
    from add_deployment_taken[OF this]
    show "add_deployment e (VStr name) description github_url frontend_url mcp_server_url
          database_type database_provider s
        = (Inl (''Deployment with slug '' @ [CHR 0x22] @ derive_slug name @ [CHR 0x22]
                @ '' already exists''), s)"
      by (simp add: slug_taken_def)
  }
  {
    assume "failed e 0 \<and> refused e 0 = Some m"
    then show "add_deployment e (VStr name) description github_url frontend_url mcp_server_url
        database_type database_provider s = (Inl m, s)"
      using add_deployment_unanswered(1)[of e m name] by simp
  }
  {
    assume "failed e 0 \<and> refused e 0 = None"
    then show "tables (snd (add_deployment e (VStr name) description github_url frontend_url
        mcp_server_url database_type database_provider s)) ''deployments''
      = tables s ''deployments''
        @ [new_row ''deployments'' (db_clock e) (next_id s)
             [(''name'', VStr name), (''slug'', VStr (derive_slug name)),
              (''description'', description), (''status'', VStr ''active'')]]"
      using add_deployment_unanswered(2)[of e name] by simp
  }
qed


lemma first_deployment:
  "refused e 0 = None \<Longrightarrow>
   tables (snd (add_deployment e (VStr n) description github_url frontend_url mcp_server_url
       database_type database_provider empty_store)) ''deployments''
   = [new_row ''deployments'' (db_clock e) 0
        [(''name'', VStr n), (''slug'', VStr (derive_slug n)),
         (''description'', description), (''status'', VStr ''active'')]]"
  by (simp add: add_deployment_state Let_def empty_store_def eq_filter_def
      single_def tables_insert_rows)

lemma reachable_first_call:
  "A ''add_deployment'' e \<Longrightarrow>
   reachable A (snd (add_deployment e (VStr n) description VUndef VUndef VUndef VUndef VUndef
     empty_store))"
proof -
  assume a: "A ''add_deployment'' e"
  have i: "reachable A empty_store"
    by (rule reachable.initial) (simp_all add: empty_store_def)
  have "reachable A
      (snd ((\<lambda>input. destructure ''name'' input (\<lambda>a.
         add_deployment e (get_prop a ''name'') (get_prop a ''description'')
           (get_prop a ''github_url'') (get_prop a ''frontend_url'')
           (get_prop a ''mcp_server_url'') (get_prop a ''database_type'')
           (get_prop a ''database_provider'')))
         (VObj [(''name'', VStr n), (''description'', description)]) empty_store))"
    by (rule reachable.call[OF i handlers_add_deployment a])
  then show ?thesis
    by (simp add: snd_destructure get_prop_eval)
qed

lemma my_cool_app_lower: "derive_slug ''my cool app'' = ''my-cool-app''"
  by (simp add: derive_slug_def toLowerCase_def lower_char_def alnum_def strip_edges_def)

theorem deployment_slug_witness:
  "add_deployment still_env (VStr ''my cool app'') VUndef VUndef VUndef VUndef VUndef VUndef
     (snd (add_deployment still_env (VStr ''My Cool App!!'') VUndef VUndef VUndef VUndef VUndef
        VUndef empty_store))
   = (Inl (''Deployment with slug '' @ [CHR 0x22] @ ''my-cool-app'' @ [CHR 0x22]
           @ '' already exists''),
      snd (add_deployment still_env (VStr ''My Cool App!!'') VUndef VUndef VUndef VUndef VUndef
        VUndef empty_store))"
proof -
  let ?s1 = "snd (add_deployment still_env (VStr ''My Cool App!!'') VUndef VUndef VUndef VUndef
        VUndef VUndef empty_store)"
  have r: "reachable (\<lambda>name e. name = ''add_deployment'' \<longrightarrow> \<not> failed e 0) ?s1"
    by (rule reachable_first_call) (simp add: still_env_def)
  have f: "\<not> failed still_env 0" by (simp add: still_env_def)
  have m: "VStr (derive_slug ''my cool app'')
      \<in> (\<lambda>d. col d ''slug'') ` set (tables ?s1 ''deployments'')"
    by (simp add: first_deployment new_deployment_row my_cool_app_lower my_cool_app still_env_def)
  from deployment_slug[of "''my cool app''" ?s1 still_env] r f m
  show ?thesis by (simp add: my_cool_app_lower)
qed

text \<open>
  C5, as stated, fails when the store fails the lookup of the slug. A deployment
  \<open>My Cool App!!\<close> exists. A call with the name \<open>my cool app\<close> whose lookup fails
  inserts a second deployment with the slug \<open>my-cool-app\<close> when the store accepts the
  insert, and fails with the message of the store, not with the collision error, when
  the store refuses it.
\<close>

theorem slug_lookup_failed_counterexample:
  "map (\<lambda>d. col d ''slug'')
     (tables (snd (add_deployment still_env (VStr ''My Cool App!!'') VUndef VUndef VUndef VUndef
        VUndef VUndef empty_store)) ''deployments'')
   = [VStr ''my-cool-app'']
   \<and> map (\<lambda>d. col d ''slug'')
     (tables (snd (add_deployment (still_env\<lparr>failed := \<lambda>k. True\<rparr>) (VStr ''my cool app'')
        VUndef VUndef VUndef VUndef VUndef VUndef
        (snd (add_deployment still_env (VStr ''My Cool App!!'') VUndef VUndef VUndef VUndef
           VUndef VUndef empty_store)))) ''deployments'')
   = [VStr ''my-cool-app'', VStr ''my-cool-app'']
   \<and> add_deployment
       (still_env\<lparr>failed := \<lambda>k. True, refused := \<lambda>k. Some ''connection reset''\<rparr>)
       (VStr ''my cool app'') VUndef VUndef VUndef VUndef VUndef VUndef
       (snd (add_deployment still_env (VStr ''My Cool App!!'') VUndef VUndef VUndef VUndef
          VUndef VUndef empty_store))
     = (Inl ''connection reset'',
        snd (add_deployment still_env (VStr ''My Cool App!!'') VUndef VUndef VUndef VUndef
          VUndef VUndef empty_store))"
proof (intro conjI)
  let ?s1 = "snd (add_deployment still_env (VStr ''My Cool App!!'') VUndef VUndef VUndef VUndef
        VUndef VUndef empty_store)"
  show one: "map (\<lambda>d. col d ''slug'') (tables ?s1 ''deployments'') = [VStr ''my-cool-app'']"
    by (simp add: first_deployment new_deployment_row my_cool_app still_env_def)
  show "map (\<lambda>d. col d ''slug'')
     (tables (snd (add_deployment (still_env\<lparr>failed := \<lambda>k. True\<rparr>) (VStr ''my cool app'')
        VUndef VUndef VUndef VUndef VUndef VUndef ?s1)) ''deployments'')
   = [VStr ''my-cool-app'', VStr ''my-cool-app'']"
    using add_deployment_unanswered(2)[of "still_env\<lparr>failed := \<lambda>k. True\<rparr>" "''my cool app''"
        VUndef VUndef VUndef VUndef VUndef VUndef ?s1] one
    by (simp add: new_deployment_row my_cool_app_lower still_env_def)
  show "add_deployment
       (still_env\<lparr>failed := \<lambda>k. True, refused := \<lambda>k. Some ''connection reset''\<rparr>)
       (VStr ''my cool app'') VUndef VUndef VUndef VUndef VUndef VUndef ?s1
     = (Inl ''connection reset'', ?s1)"
    by (rule add_deployment_unanswered(1)) simp_all
qed


lemma add_deployment_creates:
  assumes inv: "deployments_inv s" and ok: "refused e 0 = None" "refused e 1 = None"
    and free: "VStr (derive_slug n) \<notin> (\<lambda>d. col d ''slug'') ` set (tables s ''deployments'')"
  shows "\<exists>d. tables (snd (add_deployment e (VStr n) description github_url frontend_url
                 mcp_server_url database_type database_provider s)) ''deployments''
               = tables s ''deployments'' @ [d]
             \<and> col d ''slug'' = VStr (derive_slug n)
             \<and> map (\<lambda>c. col c ''component_type'')
                 (components_of (snd (add_deployment e (VStr n) description github_url
                    frontend_url mcp_server_url database_type database_provider s)) d)
               = component_types"
proof -
  let ?slug = "derive_slug n"
  let ?r0 = "[(''name'', VStr n), (''slug'', VStr ?slug),
              (''description'', description), (''status'', VStr ''active'')]"
  let ?d = "new_row ''deployments'' (db_clock e) (next_id s) ?r0"
  let ?s1 = "snd (insert_rows ''deployments'' (db_clock e) [?r0] s)"
  let ?s2 = "snd (insert_rows ''deployment_components'' (db_clock e)
                 (new_components (VId (next_id s)) github_url frontend_url mcp_server_url
                    database_type database_provider) ?s1)"
  let ?new = "map (\<lambda>(i, r). new_row ''deployment_components'' (db_clock e) i r)
        (zip [next_id ?s1 ..< next_id ?s1 + 4]
           (new_components (VId (next_id s)) github_url frontend_url mcp_server_url
              database_type database_provider))"
  from inv have cids: "\<forall>c \<in> set (tables s ''deployment_components'').
            \<exists>i < next_id s. col c ''deployment_id'' = VId i"
    by (simp add: deployments_inv_def)
  have st: "snd (add_deployment e (VStr n) description github_url frontend_url
                 mcp_server_url database_type database_provider s) = ?s2"
    unfolding add_deployment_state Let_def
    using ok by (simp add: slug_free[OF free])
  have new_ids: "\<forall>c \<in> set ?new. col c ''deployment_id'' = VId (next_id s)"
    by (rule new_component_rows(2)) simp_all
  have new_types: "map (\<lambda>c. col c ''component_type'') ?new = component_types"
    by (rule new_component_rows(1)) simp_all
  have d2: "tables ?s2 ''deployments'' = tables s ''deployments'' @ [?d]"
    and c2: "tables ?s2 ''deployment_components'' = tables s ''deployment_components'' @ ?new"
    by (simp_all add: tables_insert_rows[of "''deployment_components''"]
        tables_insert_rows[of "''deployments''"])
  have old_none: "filter (\<lambda>c. col c ''deployment_id'' = VId (next_id s))
      (tables s ''deployment_components'') = []"
    using cids by (auto simp: filter_empty_conv)
  have new_all: "filter (\<lambda>c. col c ''deployment_id'' = VId (next_id s)) ?new = ?new"
    using new_ids by (simp add: filter_id_conv)
  have "map (\<lambda>c. col c ''component_type'') (components_of ?s2 ?d) = component_types"
    unfolding components_of_def eq_filter_def c2
    using old_none new_all new_types by (simp add: new_deployment_row)
  then show ?thesis
    unfolding st using d2 by (simp add: new_deployment_row)
qed

lemma add_deployment_refused:
  assumes inv: "deployments_inv s" and ok: "refused e 0 = None" "refused e 1 = Some m"
    and free: "VStr (derive_slug n) \<notin> (\<lambda>d. col d ''slug'') ` set (tables s ''deployments'')"
  shows "fst (add_deployment e (VStr n) description github_url frontend_url
              mcp_server_url database_type database_provider s) = Inl m"
    and "\<exists>d. tables (snd (add_deployment e (VStr n) description github_url frontend_url
                 mcp_server_url database_type database_provider s)) ''deployments''
               = tables s ''deployments'' @ [d]
             \<and> components_of (snd (add_deployment e (VStr n) description github_url
                    frontend_url mcp_server_url database_type database_provider s)) d = []"
proof -
  let ?slug = "derive_slug n"
  let ?r0 = "[(''name'', VStr n), (''slug'', VStr ?slug),
              (''description'', description), (''status'', VStr ''active'')]"
  let ?d = "new_row ''deployments'' (db_clock e) (next_id s) ?r0"
  let ?s1 = "snd (insert_rows ''deployments'' (db_clock e) [?r0] s)"
  from inv have cids: "\<forall>c \<in> set (tables s ''deployment_components'').
            \<exists>i < next_id s. col c ''deployment_id'' = VId i"
    by (simp add: deployments_inv_def)
  have free': "\<not> truthy (single (map (select_cols [''id''])
      (eq_filter ''slug'' (VStr ?slug) (tables s ''deployments''))))"
    by (simp add: slug_free[OF free])
  show "fst (add_deployment e (VStr n) description github_url frontend_url
              mcp_server_url database_type database_provider s) = Inl m"
    using ok free' by (simp add: add_deployment_def Let_def split_beta)
  have st: "snd (add_deployment e (VStr n) description github_url frontend_url
                 mcp_server_url database_type database_provider s) = ?s1"
    unfolding add_deployment_state Let_def using ok free' by simp
  have d1: "tables ?s1 ''deployments'' = tables s ''deployments'' @ [?d]"
    and c1: "tables ?s1 ''deployment_components'' = tables s ''deployment_components''"
    by (simp_all add: tables_insert_rows)
  have "filter (\<lambda>c. col c ''deployment_id'' = VId (next_id s))
      (tables s ''deployment_components'') = []"
    using cids by (auto simp: filter_empty_conv)
  then have "components_of ?s1 ?d = []"
    by (simp add: components_of_def eq_filter_def c1 new_deployment_row)
  then show "\<exists>d. tables (snd (add_deployment e (VStr n) description github_url frontend_url
                 mcp_server_url database_type database_provider s)) ''deployments''
               = tables s ''deployments'' @ [d]
             \<and> components_of (snd (add_deployment e (VStr n) description github_url
                    frontend_url mcp_server_url database_type database_provider s)) d = []"
    unfolding st using d1 by simp
qed

text \<open>
  C9, as amended. In the states reached by calls in which the store accepts the insert
  of the components whenever \<open>add_deployment\<close> gets that far, every deployment has
  exactly the four components \<open>github\<close>, \<open>frontend\<close>, \<open>mcp_server\<close>, \<open>database\<close>, in
  this order. A successful \<open>add_deployment\<close> adds one deployment, with these four;
  one whose insert of the components is refused fails with the store's message and
  leaves the new deployment without components; a successful \<open>delete_deployment\<close>
  removes the deployment and all its components.
\<close>

theorem four_components_when_accepted:
  "(reachable (\<lambda>name e. name = ''add_deployment'' \<longrightarrow> refused e 1 = None) s \<longrightarrow>
      four_components s)
   \<and> (reachable A s \<and> refused e 0 = None \<and> refused e 1 = None
       \<and> VStr (derive_slug n) \<notin> (\<lambda>d. col d ''slug'') ` set (tables s ''deployments'') \<longrightarrow>
       (\<exists>d. tables (snd (add_deployment e (VStr n) description github_url frontend_url
                 mcp_server_url database_type database_provider s)) ''deployments''
               = tables s ''deployments'' @ [d]
             \<and> col d ''slug'' = VStr (derive_slug n)
             \<and> map (\<lambda>c. col c ''component_type'')
                 (components_of (snd (add_deployment e (VStr n) description github_url
                    frontend_url mcp_server_url database_type database_provider s)) d)
               = component_types))
   \<and> (reachable A s \<and> refused e 0 = None \<and> refused e 1 = Some m
       \<and> VStr (derive_slug n) \<notin> (\<lambda>d. col d ''slug'') ` set (tables s ''deployments'') \<longrightarrow>
       fst (add_deployment e (VStr n) description github_url frontend_url
              mcp_server_url database_type database_provider s) = Inl m
       \<and> (\<exists>d. tables (snd (add_deployment e (VStr n) description github_url frontend_url
                 mcp_server_url database_type database_provider s)) ''deployments''
               = tables s ''deployments'' @ [d]
             \<and> components_of (snd (add_deployment e (VStr n) description github_url
                    frontend_url mcp_server_url database_type database_provider s)) d = []))
   \<and> (refused e 0 = None \<and> d \<in> set (tables s ''deployments'') \<and> col d ''id'' = x \<longrightarrow>
       components_of (snd (delete_deployment e x s)) d = []
       \<and> d \<notin> set (tables (snd (delete_deployment e x s)) ''deployments''))"
proof (intro conjI impI)
  assume "reachable (\<lambda>name e. name = ''add_deployment'' \<longrightarrow> refused e 1 = None) s"
  then show "four_components s" by (rule reachable_four)
next
  assume a: "reachable A s \<and> refused e 0 = None \<and> refused e 1 = None
       \<and> VStr (derive_slug n) \<notin> (\<lambda>d. col d ''slug'') ` set (tables s ''deployments'')"
  then have "deployments_inv s" using reachable_inv[of A s] by simp
  from add_deployment_creates[OF this] a
  show "\<exists>d. tables (snd (add_deployment e (VStr n) description github_url frontend_url
                 mcp_server_url database_type database_provider s)) ''deployments''
               = tables s ''deployments'' @ [d]
             \<and> col d ''slug'' = VStr (derive_slug n)
             \<and> map (\<lambda>c. col c ''component_type'')
                 (components_of (snd (add_deployment e (VStr n) description github_url
                    frontend_url mcp_server_url database_type database_provider s)) d)
               = component_types"
    by blast
next
  assume a: "reachable A s \<and> refused e 0 = None \<and> refused e 1 = Some m
       \<and> VStr (derive_slug n) \<notin> (\<lambda>d. col d ''slug'') ` set (tables s ''deployments'')"
  then have "deployments_inv s" using reachable_inv[of A s] by simp
  from add_deployment_refused[OF this] a
  show "fst (add_deployment e (VStr n) description github_url frontend_url
              mcp_server_url database_type database_provider s) = Inl m"
    and "\<exists>d. tables (snd (add_deployment e (VStr n) description github_url frontend_url
                 mcp_server_url database_type database_provider s)) ''deployments''
               = tables s ''deployments'' @ [d]
             \<and> components_of (snd (add_deployment e (VStr n) description github_url
                    frontend_url mcp_server_url database_type database_provider s)) d = []"
    by blast+
next
  assume a: "refused e 0 = None \<and> d \<in> set (tables s ''deployments'') \<and> col d ''id'' = x"
  then show "components_of (snd (delete_deployment e x s)) d = []"
    using delete_deployment_cascade(1)[of e d s x] by simp
  from a show "d \<notin> set (tables (snd (delete_deployment e x s)) ''deployments'')"
    using delete_deployment_cascade(2)[of e d s x] by simp
qed

theorem four_components_when_accepted_witness:
  "four_components (snd (add_deployment still_env (VStr ''My Cool App!!'') (VStr ''demo'')
      VUndef VUndef VUndef VUndef VUndef empty_store))
   \<and> length (tables (snd (add_deployment still_env (VStr ''My Cool App!!'') (VStr ''demo'')
      VUndef VUndef VUndef VUndef VUndef empty_store)) ''deployments'') = 1"
proof -
  have "reachable (\<lambda>name e. name = ''add_deployment'' \<longrightarrow> refused e 1 = None)
      (snd (add_deployment still_env (VStr ''My Cool App!!'') (VStr ''demo'')
      VUndef VUndef VUndef VUndef VUndef empty_store))"
    by (rule reachable_first_call) (simp add: still_env_def)
  then show ?thesis
    using four_components_when_accepted[of
        "snd (add_deployment still_env (VStr ''My Cool App!!'') (VStr ''demo'')
           VUndef VUndef VUndef VUndef VUndef empty_store)"]
    by (simp add: first_deployment still_env_def)
qed

text \<open>
  C9, as stated, fails when the store refuses the insert of the components: the
  deployment has been inserted by then and stays, with no component at all.
\<close>

theorem component_insert_refused_counterexample:
  "reachable (\<lambda>name e. True)
     (snd (add_deployment (still_env\<lparr>refused := \<lambda>k. if k = 1 then Some ''connection reset''
                                                   else None\<rparr>)
        (VStr ''My Cool App!!'') (VStr ''demo'') VUndef VUndef VUndef VUndef VUndef empty_store))
   \<and> \<not> four_components
     (snd (add_deployment (still_env\<lparr>refused := \<lambda>k. if k = 1 then Some ''connection reset''
                                                   else None\<rparr>)
        (VStr ''My Cool App!!'') (VStr ''demo'') VUndef VUndef VUndef VUndef VUndef empty_store))"
proof
  show "reachable (\<lambda>name e. True)
     (snd (add_deployment (still_env\<lparr>refused := \<lambda>k. if k = 1 then Some ''connection reset''
                                                   else None\<rparr>)
        (VStr ''My Cool App!!'') (VStr ''demo'') VUndef VUndef VUndef VUndef VUndef empty_store))"
    by (rule reachable_first_call) simp
  show "\<not> four_components
     (snd (add_deployment (still_env\<lparr>refused := \<lambda>k. if k = 1 then Some ''connection reset''
                                                   else None\<rparr>)
        (VStr ''My Cool App!!'') (VStr ''demo'') VUndef VUndef VUndef VUndef VUndef empty_store))"
    by (simp add: four_components_def components_of_def eq_filter_def add_deployment_state Let_def
        tables_insert_rows empty_store_def single_def component_types_def)
qed

end
